theory Spec2Isabelle
  imports Complex_Main "HOL-Library.Word" "HOL-Library.Stream" "HOL-Library.Log_Nat"
begin

section \<open>JavaScript values used by the WhatsApp service\<close>

text \<open>
  A JavaScript string is a sequence of UTF-16 code units; \<open>length\<close> counts code units,
  as \<^verbatim>\<open>String.prototype.length\<close> does. \<open>js\<close> turns an ASCII literal into such a string.
\<close>

type_synonym jschar = "16 word"
type_synonym jsstring = "jschar list"

definition js :: "string \<Rightarrow> jsstring" where
  "js s = map (\<lambda>c. of_nat (of_char c)) s"

subsection \<open>Numbers\<close>

text \<open>
  A JavaScript number is a double-precision floating-point number: \<^verbatim>\<open>NaN\<close>, one of the two
  infinities, or a finite value \<open>m * 2 ^ e\<close> with \<open>\<bar>m\<bar> < 2 ^ 53\<close> and \<open>- 1074 \<le> e\<close>, kept here by
  the real number it stands for. The two zeros are one value: they are equal under every
  comparison of the service and print alike.
\<close>

datatype number = NaN | PosInfinity | NegInfinity | Finite real

text \<open>
  The binary exponent of a real other than zero, \<open>2 ^ exponent x \<le> \<bar>x\<bar> < 2 ^ (exponent x + 1)\<close>,
  computed from the number of bits of an integer; and the distance between neighbouring
  doubles at \<open>x\<close>, which is \<open>2 ^ - 1074\<close> in the subnormal range.
\<close>

definition exponent :: "real \<Rightarrow> int" where
  "exponent x =
     (if 1 \<le> \<bar>x\<bar> then bitlen \<lfloor>\<bar>x\<bar>\<rfloor> - 1 else - bitlen (\<lceil>1 / \<bar>x\<bar>\<rceil> - 1))"

definition ulp :: "real \<Rightarrow> real" where
  "ulp x = 2 powi max (exponent x - 52) (- 1074)"

text \<open>The nearest integer, a tie going to the even one.\<close>

definition roundHalfEven :: "real \<Rightarrow> int" where
  "roundHalfEven y =
     (let n = \<lfloor>y\<rfloor>; d = y - of_int n
      in if d < 1 / 2 then n else if 1 / 2 < d then n + 1 else if even n then n else n + 1)"

text \<open>
  The rounding of IEEE 754 in the default mode (to nearest, ties to even), and the
  number value of a real: a rounded magnitude of \<open>2 ^ 1024\<close> or more is an infinity.
\<close>

definition roundDouble :: "real \<Rightarrow> real" where
  "roundDouble x = (if x = 0 then 0 else of_int (roundHalfEven (x / ulp x)) * ulp x)"

definition toDouble :: "real \<Rightarrow> number" where
  "toDouble x =
     (let y = roundDouble x
      in if 2 ^ 1024 \<le> y then PosInfinity
         else if y \<le> - (2 ^ 1024) then NegInfinity
         else Finite y)"

definition isDouble :: "real \<Rightarrow> bool" where
  "isDouble x \<longleftrightarrow> toDouble x = Finite x"

text \<open>
  \<^verbatim>\<open>isNaN(x)\<close>, \<^verbatim>\<open>-x\<close>, \<^verbatim>\<open>x + y\<close>, \<^verbatim>\<open>x - y\<close>, \<^verbatim>\<open>x * y\<close>, \<^verbatim>\<open>Math.floor(x)\<close> and \<^verbatim>\<open>x > y\<close> on numbers. The
  result of an operation on finite values is the exact result, rounded.
\<close>

definition isNaN :: "number \<Rightarrow> bool" where
  "isNaN x \<longleftrightarrow> x = NaN"

fun negate :: "number \<Rightarrow> number" where
  "negate NaN = NaN"
| "negate PosInfinity = NegInfinity"
| "negate NegInfinity = PosInfinity"
| "negate (Finite a) = Finite (- a)"

fun numAdd :: "number \<Rightarrow> number \<Rightarrow> number" where
  "numAdd (Finite a) (Finite b) = toDouble (a + b)"
| "numAdd NaN y = NaN"
| "numAdd x NaN = NaN"
| "numAdd PosInfinity NegInfinity = NaN"
| "numAdd NegInfinity PosInfinity = NaN"
| "numAdd PosInfinity y = PosInfinity"
| "numAdd x PosInfinity = PosInfinity"
| "numAdd NegInfinity y = NegInfinity"
| "numAdd x NegInfinity = NegInfinity"

definition numSub :: "number \<Rightarrow> number \<Rightarrow> number" where
  "numSub x y = numAdd x (negate y)"

fun numMul :: "number \<Rightarrow> number \<Rightarrow> number" where
  "numMul (Finite a) (Finite b) = toDouble (a * b)"
| "numMul NaN y = NaN"
| "numMul x NaN = NaN"
| "numMul (Finite a) y = (if a = 0 then NaN else if 0 < a then y else negate y)"
| "numMul x (Finite b) = (if b = 0 then NaN else if 0 < b then x else negate x)"
| "numMul PosInfinity y = y"
| "numMul NegInfinity y = negate y"

fun numFloor :: "number \<Rightarrow> number" where
  "numFloor (Finite a) = Finite (of_int \<lfloor>a\<rfloor>)"
| "numFloor x = x"

fun numGreater :: "number \<Rightarrow> number \<Rightarrow> bool" where
  "numGreater (Finite a) (Finite b) = (b < a)"
| "numGreater NaN y = False"
| "numGreater x NaN = False"
| "numGreater x PosInfinity = False"
| "numGreater PosInfinity y = True"
| "numGreater NegInfinity y = False"
| "numGreater x NegInfinity = True"

text \<open>
  \<^verbatim>\<open>Math.random()\<close> is a global source of numbers in \<open>[0, 1)\<close>; every call takes the next
  one. The source is a stream that the functions below consume and hand on; a draw is a
  double at least 0 and below 1.
\<close>

type_synonym rand = "real stream"

definition unitInterval :: "rand \<Rightarrow> bool" where
  "unitInterval rs \<longleftrightarrow> (\<forall>r \<in> sset rs. isDouble r \<and> 0 \<le> r \<and> r < 1)"

text \<open>
  \<^verbatim>\<open>Math.floor(Math.random() * n)\<close> for the draw \<open>r\<close> and a length \<open>n\<close>: the product is
  rounded as every product of two numbers is. (A length is a number that is held exactly,
  and the product is below it.)
\<close>

definition randomIndex :: "real \<Rightarrow> nat \<Rightarrow> nat" where
  "randomIndex r n = nat \<lfloor>roundDouble (r * real n)\<rfloor>"

subsection \<open>Characters\<close>

definition isDigit :: "jschar \<Rightarrow> bool" where
  "isDigit c \<longleftrightarrow> 0x30 \<le> c \<and> c \<le> 0x39"

definition isUpper :: "jschar \<Rightarrow> bool" where
  "isUpper c \<longleftrightarrow> 0x41 \<le> c \<and> c \<le> 0x5A"

definition isLower :: "jschar \<Rightarrow> bool" where
  "isLower c \<longleftrightarrow> 0x61 \<le> c \<and> c \<le> 0x7A"

text \<open>The class \<^verbatim>\<open>\w\<close> of a regular expression without the \<^verbatim>\<open>u\<close> flag: \<^verbatim>\<open>[A-Za-z0-9_]\<close>.\<close>

definition isWordChar :: "jschar \<Rightarrow> bool" where
  "isWordChar c \<longleftrightarrow> isUpper c \<or> isLower c \<or> isDigit c \<or> c = 0x5F"

text \<open>
  \<^verbatim>\<open>WhiteSpace\<close> and \<^verbatim>\<open>LineTerminator\<close> of ECMAScript, the code units that \<^verbatim>\<open>trim()\<close> and
  \<^verbatim>\<open>parseInt\<close> skip. The zero-width space U+200B is not among them.
\<close>

definition isWhiteSpace :: "jschar \<Rightarrow> bool" where
  "isWhiteSpace c \<longleftrightarrow>
     (0x09 \<le> c \<and> c \<le> 0x0D) \<or> c = 0x20 \<or> c = 0xA0 \<or> c = 0x1680 \<or>
     (0x2000 \<le> c \<and> c \<le> 0x200A) \<or> c = 0x2028 \<or> c = 0x2029 \<or> c = 0x202F \<or>
     c = 0x205F \<or> c = 0x3000 \<or> c = 0xFEFF"

text \<open>
  The folding of the ASCII letters, every other code unit kept. It is the comparison of a
  regular expression with the \<^verbatim>\<open>i\<close> flag and without the \<^verbatim>\<open>u\<close> flag against a pattern
  of ASCII characters (a code unit from \<open>0x80\<close> on is never folded onto an ASCII one
  there), and it is \<^verbatim>\<open>toLowerCase()\<close> and \<^verbatim>\<open>toUpperCase()\<close> on a string of ASCII
  characters. \<^verbatim>\<open>String.prototype.toLowerCase\<close> on other strings follows the Unicode tables
  of the platform; where the service applies it to a text from outside, it is a parameter
  of the function below.
\<close>

definition toLowerChar :: "jschar \<Rightarrow> jschar" where
  "toLowerChar c = (if isUpper c then c + 0x20 else c)"

definition toUpperChar :: "jschar \<Rightarrow> jschar" where
  "toUpperChar c = (if isLower c then c - 0x20 else c)"

definition lowerASCII :: "jsstring \<Rightarrow> jsstring" where
  "lowerASCII s = map toLowerChar s"

definition upperASCII :: "jsstring \<Rightarrow> jsstring" where
  "upperASCII s = map toUpperChar s"

text \<open>
  What the development assumes of \<^verbatim>\<open>String.prototype.toLowerCase\<close>: on a string of ASCII
  characters it is the ASCII folding.
\<close>

definition isASCII :: "jsstring \<Rightarrow> bool" where
  "isASCII s \<longleftrightarrow> list_all (\<lambda>c. c < 0x80) s"

definition foldsASCII :: "(jsstring \<Rightarrow> jsstring) \<Rightarrow> bool" where
  "foldsASCII toLowerCase \<longleftrightarrow> (\<forall>s. isASCII s \<longrightarrow> toLowerCase s = lowerASCII s)"

subsection \<open>String operations\<close>

text \<open>\<^verbatim>\<open>s.trim()\<close>.\<close>

definition trim :: "jsstring \<Rightarrow> jsstring" where
  "trim s = rev (dropWhile isWhiteSpace (rev (dropWhile isWhiteSpace s)))"

text \<open>\<^verbatim>\<open>s.split(d)\<close> for a one-character separator: always at least one piece.\<close>

fun splitOn :: "jschar \<Rightarrow> jsstring \<Rightarrow> jsstring list" where
  "splitOn d [] = [[]]"
| "splitOn d (c # cs) =
     (let r = splitOn d cs in if c = d then [] # r else (c # hd r) # tl r)"

text \<open>\<^verbatim>\<open>s.startsWith(p)\<close>, \<^verbatim>\<open>s.endsWith(p)\<close> and \<^verbatim>\<open>s.includes(p)\<close>.\<close>

definition startsWith :: "jsstring \<Rightarrow> jsstring \<Rightarrow> bool" where
  "startsWith s p \<longleftrightarrow> take (length p) s = p"

definition endsWith :: "jsstring \<Rightarrow> jsstring \<Rightarrow> bool" where
  "endsWith s p \<longleftrightarrow> startsWith (rev s) (rev p)"

fun includes_str :: "jsstring \<Rightarrow> jsstring \<Rightarrow> bool" where
  "includes_str [] p = (p = [])"
| "includes_str (c # cs) p = (startsWith (c # cs) p \<or> includes_str cs p)"

subsection \<open>parseInt\<close>

text \<open>
  The value of a digit in radix up to 36; 36 for a code unit that is no digit.
\<close>

definition digitValue :: "jschar \<Rightarrow> nat" where
  "digitValue c =
     (if isDigit c then unat c - 0x30
      else if isLower c then unat c - 0x61 + 10
      else if isUpper c then unat c - 0x41 + 10
      else 36)"

text \<open>
  \<^verbatim>\<open>parseInt(s)\<close> with no radix argument: leading white space is skipped, a sign is read,
  a \<^verbatim>\<open>0x\<close> or \<^verbatim>\<open>0X\<close> prefix selects radix 16, and the longest run of digits is read.
  With no digit the result is \<^verbatim>\<open>NaN\<close>; else it is the number value of the integer the
  digits spell: that integer up to \<open>2 ^ 53\<close>, the nearest double above, and \<^verbatim>\<open>Infinity\<close>
  beyond the range of the doubles. (Past twenty significant digits ECMAScript leaves the
  last digits to the engine; V8, on which the service runs, rounds the whole run.)
\<close>

definition parseInt :: "jsstring \<Rightarrow> number" where
  "parseInt s =
     (let s1 = dropWhile isWhiteSpace s;
          sign = (if startsWith s1 (js ''-'') then - 1 else 1 :: int);
          s2 = (if startsWith s1 (js ''-'') \<or> startsWith s1 (js ''+'') then tl s1 else s1);
          hex = (startsWith s2 (js ''0x'') \<or> startsWith s2 (js ''0X''));
          radix = (if hex then 16 else 10 :: nat);
          s3 = (if hex then drop 2 s2 else s2);
          ds = takeWhile (\<lambda>c. digitValue c < radix) s3
      in if ds = [] then NaN
         else toDouble (of_int (sign * int (foldl (\<lambda>a c. a * radix + digitValue c) 0 ds))))"

section \<open>Delay ranges\<close>

text \<open>
  \<^verbatim>\<open>getRandomDelay(range)\<close>. Destructuring \<^verbatim>\<open>[min, max]\<close> gives \<^verbatim>\<open>undefined\<close> for a
  missing piece, and \<^verbatim>\<open>isNaN(undefined)\<close> is true, so a missing piece behaves as \<^verbatim>\<open>NaN\<close>.
  No random number is drawn when the function returns 10. The result is a number: the
  subtraction, the addition of 1, the product with the draw and the last addition round,
  and an infinite piece makes the result \<^verbatim>\<open>NaN\<close>.
\<close>

definition getRandomDelay :: "jsstring \<Rightarrow> rand \<Rightarrow> number \<times> rand" where
  "getRandomDelay rng rs =
     (let parts = map (\<lambda>val. parseInt (trim val)) (splitOn 0x2D rng);
          min0 = (case parts of [] \<Rightarrow> NaN | a # _ \<Rightarrow> a);
          max0 = (case parts of a # b # _ \<Rightarrow> b | _ \<Rightarrow> NaN)
      in if isNaN min0 then (Finite 10, rs)
         else
           (let max1 = (if isNaN max0 then min0 else max0);
                lo = (if numGreater min0 max1 then max1 else min0);
                hi = (if numGreater min0 max1 then min0 else max1)
            in (numAdd
                  (numFloor (numMul (Finite (shd rs)) (numAdd (numSub hi lo) (Finite 1))))
                  lo,
                stl rs)))"

text \<open>The first and second piece of a rng, as \<open>getRandomDelay\<close> reads them.\<close>

definition firstToken :: "jsstring \<Rightarrow> number" where
  "firstToken rng = parseInt (trim (hd (splitOn 0x2D rng)))"

definition secondToken :: "jsstring \<Rightarrow> number" where
  "secondToken rng =
     (case tl (splitOn 0x2D rng) of [] \<Rightarrow> NaN | b # _ \<Rightarrow> parseInt (trim b))"

section \<open>Persistent records\<close>

text \<open>
  The status column of a MessageLog row holds one of five strings.
\<close>

datatype messageStatus = PENDING | SENT | DELIVERED | READ | FAILED

text \<open>
  A MessageLog row. Rows are never deleted, so a table is the list of its rows in creation
  order and the primary key of a row is its position. \<open>waMessageId\<close> is null until the
  row is marked sent and carries a unique index; \<open>userId\<close> and \<open>campaignId\<close> are optional
  relations.
\<close>

record messageLog =
  log_to :: jsstring
  log_body :: jsstring
  log_status :: messageStatus
  log_waMessageId :: "jsstring option"
  log_userId :: "int option"
  log_campaignId :: "nat option"

record campaignMessage =
  campaign_title :: jsstring

text \<open>
  A reply rule \<^verbatim>\<open>{receive, reply}\<close> and the auto-reply configuration of a campaign, with
  \<^verbatim>\<open>traceWords\<close> and \<^verbatim>\<open>replyMap\<close> as \<^verbatim>\<open>JSON.parse\<close> returns them.
\<close>

record replyRule =
  receive :: jsstring
  reply :: jsstring

record campaignAutoReply =
  traceWords :: "jsstring list"
  replyMap :: "replyRule list"
  delayReply :: jsstring

section \<open>The protocol client\<close>

text \<open>
  What the service throws: a \<^verbatim>\<open>BadRequestException\<close> with its message, or an \<^verbatim>\<open>Error\<close>
  raised by a collaborator (the protocol client, the database). \<open>message\<close> is
  \<^verbatim>\<open>error.message\<close>.
\<close>

datatype exception = BadRequestException jsstring | Error jsstring

fun message :: "exception \<Rightarrow> jsstring" where
  "message (BadRequestException m) = m"
| "message (Error m) = m"

text \<open>
  The exceptions of \<^verbatim>\<open>sendMessage\<close> and \<^verbatim>\<open>sendBulkMessage\<close>, one for each \<^verbatim>\<open>throw\<close> of the
  source, under the names of the error taxonomy. \<open>MediaTypeRequired\<close> (an attachment with
  no media type) and \<open>UnsupportedMediaType\<close> (a media type that is none of image, video and
  document) are the two throws for a bad media type.
\<close>

definition SessionNotFound :: exception where
  "SessionNotFound = BadRequestException (js ''Sesi tidak ditemukan atau terputus.'')"

definition RecipientNotRegistered :: "jsstring \<Rightarrow> exception" where
  "RecipientNotRegistered to =
     BadRequestException (js ''Nomor '' @ to @ js '' tidak terdaftar di WhatsApp.'')"

definition MediaTypeRequired :: exception where
  "MediaTypeRequired = BadRequestException (js ''mediaType wajib diisi jika mengirim file'')"

definition NoMediaSource :: exception where
  "NoMediaSource =
     BadRequestException
       (js ''Tidak ada media file atau URL yang disediakan untuk pengiriman'')"

definition UnsupportedMediaType :: exception where
  "UnsupportedMediaType = BadRequestException (js ''Tipe media tidak didukung'')"

text \<open>
  The media handed to the protocol client: the bytes of an upload, the buffer decoded from
  a base64 payload (kept as the payload), or a remote URL.
\<close>

datatype media = Buffer "8 word list" | Base64 jsstring | Url jsstring

text \<open>
  The second argument of \<^verbatim>\<open>sock.sendMessage\<close>: text; image or video with a caption;
  document with mimetype, file name and caption.
\<close>

datatype content =
    Text jsstring
  | Image media jsstring
  | Video media jsstring
  | Document media jsstring jsstring jsstring

text \<open>
  A live handle (\<^verbatim>\<open>WASocket\<close>), by what its calls answer. \<open>onWhatsApp\<close> answers the first
  entry of the result, if any, with its \<^verbatim>\<open>exists\<close> flag; \<open>sock_sendMessage\<close> answers
  \<^verbatim>\<open>sentMsg?.key?.id\<close>. Each call may throw instead.
\<close>

record sock =
  onWhatsApp :: "jsstring \<Rightarrow> exception + bool option"
  sendPresenceUpdate :: "jsstring \<Rightarrow> exception option"
  sock_sendMessage :: "jsstring \<Rightarrow> content \<Rightarrow> exception + jsstring option"

section \<open>The state of the service\<close>

text \<open>
  What a call does to the outside, in the order it does it. \<open>Sleep ms\<close> is a call of
  \<^verbatim>\<open>sleep(ms)\<close> with its number of milliseconds.
\<close>

datatype event =
    RegistrationQuery jsstring
  | Composing jsstring
  | Sleep number
  | LogCreated nat
  | Transmit jsstring content
  | LogUpdated nat messageStatus

record bulkMessageData =
  item_to :: jsstring
  item_message :: jsstring
  item_file :: "jsstring option"
  item_mediaType :: "jsstring option"
  item_fileName :: "jsstring option"

text \<open>
  A call of \<^verbatim>\<open>processBulkMessageBackground\<close> that was started and is not awaited.
\<close>

datatype task = BulkTask jsstring "bulkMessageData list" jsstring nat

text \<open>
  The tables, the effects so far and the background tasks started. \<open>devices\<close> is the
  WhatsappDevice table by its unique session id, with the owner's user id; \<open>autoReplies\<close>
  is the CampaignAutoReply table by its unique campaign id.
\<close>

record world =
  messageLogs :: "messageLog list"
  campaigns :: "campaignMessage list"
  devices :: "jsstring \<rightharpoonup> int"
  autoReplies :: "nat \<rightharpoonup> campaignAutoReply"
  trace :: "event list"
  background :: "task list"

definition emit :: "event list \<Rightarrow> world \<Rightarrow> world" where
  "emit es w = w\<lparr>trace := trace w @ es\<rparr>"

section \<open>Sending one message\<close>

record sendMessageDto =
  dto_sessionId :: jsstring
  dto_to :: jsstring
  dto_message :: jsstring
  dto_file :: "jsstring option"
  dto_mediaType :: "jsstring option"
  dto_fileName :: "jsstring option"

text \<open>An uploaded file (\<^verbatim>\<open>Express.Multer.File\<close>).\<close>

record multerFile =
  buffer :: "8 word list"
  mimetype :: jsstring
  originalname :: jsstring

text \<open>An optional string is truthy when it is present and not empty.\<close>

definition truthy :: "jsstring option \<Rightarrow> bool" where
  "truthy s \<longleftrightarrow> (case s of None \<Rightarrow> False | Some v \<Rightarrow> v \<noteq> [])"

text \<open>\<^verbatim>\<open>mediaFile || file\<close>.\<close>

definition hasAttachment :: "sendMessageDto \<Rightarrow> multerFile option \<Rightarrow> bool" where
  "hasAttachment dto mediaFile \<longleftrightarrow> mediaFile \<noteq> None \<or> truthy (dto_file dto)"

text \<open>
  \<^verbatim>\<open>getMimeType(fileName)\<close>; \<open>extname\<close> is \<^verbatim>\<open>path.extname\<close> of the platform. The
  extension in lower case is compared with seven ASCII literals. The Unicode lower case
  of a string is ASCII only if all its characters are ASCII or the Kelvin sign, which
  becomes \<open>k\<close>, a letter of none of the literals; so the ASCII folding decides the
  comparisons as \<^verbatim>\<open>toLowerCase()\<close> does.
\<close>

definition getMimeType :: "(jsstring \<Rightarrow> jsstring) \<Rightarrow> jsstring option \<Rightarrow> jsstring option" where
  "getMimeType extname fileName =
     (if \<not> truthy fileName then None
      else
        (let ext = lowerASCII (extname (the fileName)) in
         if ext = js ''.pdf'' then Some (js ''application/pdf'')
         else if ext = js ''.doc'' \<or> ext = js ''.docx'' then Some (js ''application/msword'')
         else if ext = js ''.xls'' \<or> ext = js ''.xlsx'' then
           Some (js ''application/vnd.ms-excel'')
         else if ext = js ''.zip'' then Some (js ''application/zip'')
         else if ext = js ''.txt'' then Some (js ''text/plain'')
         else None))"

text \<open>
  \<^verbatim>\<open>file.replace(/^data:.*,/, '')\<close>: a leading \<^verbatim>\<open>data:\<close> up to the last comma of the first
  line is removed (the dot matches no line terminator).
\<close>

definition isLineTerminator :: "jschar \<Rightarrow> bool" where
  "isLineTerminator c \<longleftrightarrow> c = 0x0A \<or> c = 0x0D \<or> c = 0x2028 \<or> c = 0x2029"

definition stripDataPrefix :: "jsstring \<Rightarrow> jsstring" where
  "stripDataPrefix file =
     (if startsWith file (js ''data:'') then
        (let line = takeWhile (\<lambda>c. \<not> isLineTerminator c) (drop 5 file);
             afterLast = rev (takeWhile (\<lambda>c. c \<noteq> 0x2C) (rev line))
         in if 0x2C \<in> set line
            then drop (5 + (length line - length afterLast)) file
            else file)
      else file)"

text \<open>
  The media and mime type of an attachment: the upload first, else the string source.
  The last branch is the source's \<^verbatim>\<open>else throw\<close>.
\<close>

definition resolveMedia ::
  "(jsstring \<Rightarrow> jsstring) \<Rightarrow> sendMessageDto \<Rightarrow> multerFile option \<Rightarrow> exception + media \<times> jsstring"
where
  "resolveMedia extname dto mediaFile =
     (case mediaFile of
        Some f \<Rightarrow> Inr (Buffer (buffer f), mimetype f)
      | None \<Rightarrow>
          if truthy (dto_file dto) then
            (let file = the (dto_file dto);
                 mediaBuffer =
                   (if startsWith file (js ''http'') then Url file
                    else Base64 (stripDataPrefix file));
                 finalMimeType =
                   (case getMimeType extname (dto_fileName dto) of
                      Some m \<Rightarrow> m
                    | None \<Rightarrow> js ''application/octet-stream'')
             in Inr (mediaBuffer, finalMimeType))
          else Inl NoMediaSource)"

text \<open>
  What the \<^verbatim>\<open>try\<close> block computes before it calls the protocol client: the content to
  send, or the exception it throws.
\<close>

definition resolveContent ::
  "(jsstring \<Rightarrow> jsstring) \<Rightarrow> sendMessageDto \<Rightarrow> multerFile option \<Rightarrow> exception + content"
where
  "resolveContent extname dto mediaFile =
     (if \<not> hasAttachment dto mediaFile then Inr (Text (dto_message dto))
      else if \<not> truthy (dto_mediaType dto) then Inl MediaTypeRequired
      else
        (case resolveMedia extname dto mediaFile of
           Inl e \<Rightarrow> Inl e
         | Inr (mediaBuffer, finalMimeType) \<Rightarrow>
             (let caption = dto_message dto;
                  mediaType = the (dto_mediaType dto)
              in if mediaType = js ''image'' then Inr (Image mediaBuffer caption)
                 else if mediaType = js ''video'' then Inr (Video mediaBuffer caption)
                 else if mediaType = js ''document'' then
                   Inr (Document mediaBuffer finalMimeType
                          (if truthy (dto_fileName dto) then the (dto_fileName dto)
                           else
                             (case mediaFile of
                                Some f \<Rightarrow>
                                  if originalname f \<noteq> [] then originalname f
                                  else js ''document.bin''
                              | None \<Rightarrow> js ''document.bin''))
                          caption)
                 else Inl UnsupportedMediaType)))"

text \<open>
  \<^verbatim>\<open>prisma.messageLog.update\<close> by primary key. A \<^verbatim>\<open>waMessageId\<close> that is \<^verbatim>\<open>undefined\<close>
  leaves the column alone; one that another row already holds violates the unique index
  and the update throws.
\<close>

definition updateStatus :: "nat \<Rightarrow> messageStatus \<Rightarrow> world \<Rightarrow> world" where
  "updateStatus i st w =
     emit [LogUpdated i st]
       (w\<lparr>messageLogs := (messageLogs w)[i := (messageLogs w ! i)\<lparr>log_status := st\<rparr>]\<rparr>)"

definition waMessageIdTaken :: "nat \<Rightarrow> jsstring \<Rightarrow> world \<Rightarrow> bool" where
  "waMessageIdTaken i m w \<longleftrightarrow>
     Some m \<in> set (map log_waMessageId (take i (messageLogs w) @ drop (Suc i) (messageLogs w)))"

definition markSent :: "nat \<Rightarrow> jsstring option \<Rightarrow> world \<Rightarrow> exception + world" where
  "markSent i waId w =
     (case waId of
        None \<Rightarrow> Inr (updateStatus i SENT w)
      | Some m \<Rightarrow>
          if waMessageIdTaken i m w
          then Inl (Error (js ''Unique constraint failed on the fields: (`waMessageId`)''))
          else Inr (emit [LogUpdated i SENT]
                 (w\<lparr>messageLogs :=
                      (messageLogs w)
                        [i := (messageLogs w ! i)\<lparr>log_status := SENT, log_waMessageId := Some m\<rparr>]\<rparr>)))"

text \<open>
  The result of \<^verbatim>\<open>sendMessage\<close>: \<^verbatim>\<open>{status: 'success', data: log}\<close> with the id and the
  row that \<^verbatim>\<open>create\<close> returned, or \<^verbatim>\<open>{status: 'failed', error}\<close>.
\<close>

datatype sendResult = Success nat messageLog | Failed jsstring

text \<open>\<^verbatim>\<open>Math.min(Math.max(message.length * 50, 1000), 4000)\<close>, in milliseconds.\<close>

definition typingDuration :: "jsstring \<Rightarrow> int" where
  "typingDuration msg = min (max (int (length msg) * 50) 1000) 4000"

text \<open>The recipient as the protocol expects it.\<close>

definition formatRecipient :: "jsstring \<Rightarrow> jsstring" where
  "formatRecipient to =
     (if \<not> includes_str to (js ''@'') then filter isDigit to @ js ''@s.whatsapp.net''
      else to)"

text \<open>
  The \<^verbatim>\<open>try\<close> block of \<^verbatim>\<open>sendMessage\<close> for the row \<open>i\<close>: the exception it throws, if any,
  and the state it leaves.
\<close>

definition tryTransmit ::
  "(jsstring \<Rightarrow> jsstring) \<Rightarrow> sock \<Rightarrow> jsstring \<Rightarrow> sendMessageDto \<Rightarrow> multerFile option \<Rightarrow>
     nat \<Rightarrow> world \<Rightarrow> exception option \<times> world"
where
  "tryTransmit extname sk formattedTo dto mediaFile i w =
     (case resolveContent extname dto mediaFile of
        Inl e \<Rightarrow> (Some e, w)
      | Inr c \<Rightarrow>
          (let w1 = emit [Transmit formattedTo c] w in
           case sock_sendMessage sk formattedTo c of
             Inl e \<Rightarrow> (Some e, w1)
           | Inr waMessageId \<Rightarrow>
               (case markSent i waMessageId w1 of
                  Inl e \<Rightarrow> (Some e, w1)
                | Inr w2 \<Rightarrow> (None, w2))))"

text \<open>
  The registration check: only a recipient that ends with the domain suffix is looked up.
  \<open>None\<close> when the check lets the send go on, else what is thrown.
\<close>

definition isCanonical :: "jsstring \<Rightarrow> bool" where
  "isCanonical to \<longleftrightarrow> endsWith (formatRecipient to) (js ''@s.whatsapp.net'')"

definition checkRegistration :: "sock \<Rightarrow> jsstring \<Rightarrow> exception option" where
  "checkRegistration sk to =
     (if isCanonical to then
        (case onWhatsApp sk (formatRecipient to) of
           Inl e \<Rightarrow> Some e
         | Inr None \<Rightarrow> Some (RecipientNotRegistered to)
         | Inr (Some ex) \<Rightarrow> if ex then None else Some (RecipientNotRegistered to))
      else None)"

text \<open>The \<^verbatim>\<open>data\<close> of \<^verbatim>\<open>prisma.messageLog.create\<close>.\<close>

definition pendingLog ::
  "sendMessageDto \<Rightarrow> multerFile option \<Rightarrow> nat option \<Rightarrow> world \<Rightarrow> messageLog"
where
  "pendingLog dto mediaFile campaignId w =
     \<lparr>log_to = formatRecipient (dto_to dto),
      log_body =
        dto_message dto @
        (if hasAttachment dto mediaFile then
           js '' [Attachment: '' @
           (case dto_mediaType dto of None \<Rightarrow> js ''undefined'' | Some t \<Rightarrow> t) @ js '']''
         else []),
      log_status = PENDING,
      log_waMessageId = None,
      log_userId =
        (case devices w (dto_sessionId dto) of
           None \<Rightarrow> None
         | Some ownerId \<Rightarrow> if ownerId \<noteq> 0 then Some ownerId else None),
      log_campaignId = campaignId\<rparr>"

text \<open>
  \<^verbatim>\<open>sendMessage(dto, mediaFile, campaignId)\<close>. \<open>Inl\<close> is an exception that reaches the
  caller; \<open>Inr\<close> is the returned object.
\<close>

definition sendMessage ::
  "(jsstring \<Rightarrow> jsstring) \<Rightarrow> (jsstring \<rightharpoonup> sock) \<Rightarrow> sendMessageDto \<Rightarrow> multerFile option \<Rightarrow>
     nat option \<Rightarrow> world \<Rightarrow> (exception + sendResult) \<times> world"
where
  "sendMessage extname clients dto mediaFile campaignId w =
     (case clients (dto_sessionId dto) of
        None \<Rightarrow> (Inl SessionNotFound, w)
      | Some sk \<Rightarrow>
          (let formattedTo = formatRecipient (dto_to dto);
               w1 = (if isCanonical (dto_to dto)
                     then emit [RegistrationQuery formattedTo] w else w)
           in case checkRegistration sk (dto_to dto) of
                Some e \<Rightarrow> (Inl e, w1)
              | None \<Rightarrow>
                  (let w2 = emit [Composing formattedTo] w1 in
                   case sendPresenceUpdate sk formattedTo of
                     Some e \<Rightarrow> (Inl e, w2)
                   | None \<Rightarrow>
                       (let w3 = emit [Sleep (Finite (of_int (typingDuration (dto_message dto))))] w2;
                            log = pendingLog dto mediaFile campaignId w3;
                            i = length (messageLogs w3);
                            w4 = emit [LogCreated i]
                                   (w3\<lparr>messageLogs := messageLogs w3 @ [log]\<rparr>)
                        in case tryTransmit extname sk formattedTo dto mediaFile i w4 of
                             (None, w5) \<Rightarrow> (Inr (Success i log), w5)
                           | (Some e, w5) \<Rightarrow>
                               (Inr (Failed (message e)), updateStatus i FAILED w5)))))"

section \<open>Bulk sending\<close>

record sendBulkMessageDto =
  bulk_sessionId :: jsstring
  bulk_data :: "bulkMessageData list"
  bulk_delay :: jsstring
  bulk_title :: jsstring

text \<open>The object \<^verbatim>\<open>sendBulkMessage\<close> returns; its status is the string \<^verbatim>\<open>PROCESSING\<close>.\<close>

record bulkStarted =
  started_message :: jsstring
  started_campaignId :: nat
  started_campaignTitle :: jsstring
  started_total :: nat
  started_status :: jsstring

text \<open>
  \<^verbatim>\<open>sendBulkMessage(dto)\<close>. The background call is started, not awaited: it is kept as a
  task of the state, and the function returns. (The started call suspends at the first
  \<^verbatim>\<open>await\<close> of its first \<^verbatim>\<open>sendMessage\<close>, which stands before every write to a table.)
\<close>

definition sendBulkMessage ::
  "(jsstring \<rightharpoonup> sock) \<Rightarrow> sendBulkMessageDto \<Rightarrow> world \<Rightarrow> (exception + bulkStarted) \<times> world"
where
  "sendBulkMessage clients dto w =
     (case clients (bulk_sessionId dto) of
        None \<Rightarrow> (Inl SessionNotFound, w)
      | Some sk \<Rightarrow>
          (let campaign = \<lparr>campaign_title = bulk_title dto\<rparr>;
               cid = length (campaigns w);
               w1 = w\<lparr>campaigns := campaigns w @ [campaign]\<rparr>;
               w2 = w1\<lparr>background := background w1 @
                      [BulkTask (bulk_sessionId dto) (bulk_data dto) (bulk_delay dto) cid]\<rparr>
           in (Inr \<lparr>started_message =
                       js ''Proses pengiriman massal telah dimulai di latar belakang'',
                     started_campaignId = cid,
                     started_campaignTitle = campaign_title campaign,
                     started_total = length (bulk_data dto),
                     started_status = js ''PROCESSING''\<rparr>,
               w2)))"

section \<open>Delivery acknowledgments\<close>

text \<open>
  The acknowledgment kinds of the protocol library (\<^verbatim>\<open>WAMessageStatus\<close>). \<open>ACK_ERROR\<close> is
  the enumeration's zero and so is falsy, as an absent status is.
\<close>

datatype WAMessageStatus = ACK_ERROR | ACK_PENDING | SERVER_ACK | DELIVERY_ACK | ACK_READ | PLAYED

text \<open>A value that may be \<^verbatim>\<open>undefined\<close> or \<^verbatim>\<open>null\<close>.\<close>

datatype 'a nullable = Undefined | Null | Value 'a

record messageUpdate =
  key_id :: "jsstring nullable"
  key_fromMe :: bool
  update_status :: "WAMessageStatus option"

text \<open>The \<^verbatim>\<open>switch\<close> of the \<^verbatim>\<open>messages.update\<close> handler.\<close>

fun statusString :: "WAMessageStatus \<Rightarrow> messageStatus" where
  "statusString SERVER_ACK = SENT"
| "statusString DELIVERY_ACK = DELIVERED"
| "statusString ACK_READ = READ"
| "statusString PLAYED = READ"
| "statusString _ = PENDING"

text \<open>
  \<^verbatim>\<open>where: { waMessageId }\<close>: an \<^verbatim>\<open>undefined\<close> filter selects every row, \<^verbatim>\<open>null\<close> the rows
  without a message id.
\<close>

fun matchesWaMessageId :: "jsstring nullable \<Rightarrow> messageLog \<Rightarrow> bool" where
  "matchesWaMessageId Undefined r = True"
| "matchesWaMessageId Null r = (log_waMessageId r = None)"
| "matchesWaMessageId (Value m) r = (log_waMessageId r = Some m)"

text \<open>\<^verbatim>\<open>prisma.messageLog.updateMany({ where: { waMessageId }, data: { status } })\<close>.\<close>

definition updateMany :: "jsstring nullable \<Rightarrow> messageStatus \<Rightarrow> messageLog list \<Rightarrow> messageLog list" where
  "updateMany waId st rows =
     map (\<lambda>r. if matchesWaMessageId waId r then r\<lparr>log_status := st\<rparr> else r) rows"

text \<open>One update of a \<^verbatim>\<open>messages.update\<close> event, and the handler's loop over them.\<close>

definition applyUpdate :: "messageUpdate \<Rightarrow> world \<Rightarrow> world" where
  "applyUpdate u w =
     (case update_status u of
        None \<Rightarrow> w
      | Some raw \<Rightarrow>
          if raw \<noteq> ACK_ERROR \<and> key_fromMe u
          then w\<lparr>messageLogs := updateMany (key_id u) (statusString raw) (messageLogs w)\<rparr>
          else w)"

fun onMessagesUpdate :: "messageUpdate list \<Rightarrow> world \<Rightarrow> world" where
  "onMessagesUpdate [] w = w"
| "onMessagesUpdate (u # us) w = onMessagesUpdate us (applyUpdate u w)"

section \<open>Text variation\<close>

text \<open>
  \<^verbatim>\<open>text.replace(/\{\{salam\}\}/gi, selectedGreeting)\<close>: every occurrence of the
  placeholder, in any letter case, from left to right.
\<close>

fun replaceSalam :: "jsstring \<Rightarrow> jsstring \<Rightarrow> jsstring" where
  "replaceSalam g [] = []"
| "replaceSalam g (c # cs) =
     (if lowerASCII (take 9 (c # cs)) = js ''{{salam}}''
      then g @ replaceSalam g (drop 8 cs)
      else c # replaceSalam g cs)"

definition timeSpecific :: "nat \<Rightarrow> jsstring" where
  "timeSpecific hour =
     (if 3 \<le> hour \<and> hour < 11 then js ''Pagi''
      else if 11 \<le> hour \<and> hour < 15 then js ''Siang''
      else if 15 \<le> hour \<and> hour < 18 then js ''Sore''
      else js ''Malam'')"

definition greetingVariations :: "nat \<Rightarrow> jsstring list" where
  "greetingVariations hour =
     [js ''Assalamualaikum, Selamat '' @ timeSpecific hour,
      js ''Selamat '' @ timeSpecific hour,
      js ''Halo, Selamat '' @ timeSpecific hour,
      js ''Assalamualaikum'']"

text \<open>
  \<^verbatim>\<open>getTimeBasedGreeting(text)\<close> at the hour \<^verbatim>\<open>new Date().getHours()\<close>. The greeting is drawn
  whether or not the text holds the placeholder.
\<close>

definition getTimeBasedGreeting :: "nat \<Rightarrow> jsstring \<Rightarrow> rand \<Rightarrow> jsstring \<times> rand" where
  "getTimeBasedGreeting hour text rs =
     (let variations = greetingVariations hour;
          selectedGreeting = variations ! randomIndex (shd rs) (length variations)
      in (replaceSalam selectedGreeting text, stl rs))"

definition isBrace :: "jschar \<Rightarrow> bool" where
  "isBrace c \<longleftrightarrow> c = 0x7B \<or> c = 0x7D"

text \<open>
  \<^verbatim>\<open>processSpintax(text)\<close>: \<^verbatim>\<open>text.replace(/\{([^{}]+)\}/g, ...)\<close>. A group is an opening
  brace, one or more characters that are no brace, and a closing brace; it is replaced by
  one of the pieces of its content between bars, and the scan goes on behind it.
\<close>

function processSpintax :: "jsstring \<Rightarrow> rand \<Rightarrow> jsstring \<times> rand" where
  "processSpintax [] rs = ([], rs)"
| "processSpintax (c # cs) rs =
     (let content = takeWhile (\<lambda>x. \<not> isBrace x) cs;
          rest = dropWhile (\<lambda>x. \<not> isBrace x) cs
      in if c = 0x7B \<and> content \<noteq> [] \<and> take 1 rest = [0x7D] then
           (let choices = splitOn 0x7C content;
                chosen = choices ! randomIndex (shd rs) (length choices);
                (out, rs') = processSpintax (drop 1 rest) (stl rs)
            in (chosen @ out, rs'))
         else (let (out, rs') = processSpintax cs rs in (c # out, rs')))"
  by pat_completeness auto
termination
proof (relation "measure (\<lambda>(text, rs). length text)", goal_cases)
  case 1
  show ?case by simp
next
  case (2 c cs rs content rest)
  have "length (dropWhile (\<lambda>x. \<not> isBrace x) cs) \<le> length cs"
    by (rule length_dropWhile_le)
  with 2 show ?case by simp
next
  case 3
  then show ?case by simp
qed

text \<open>The zero-width space U+200B.\<close>

definition ZWSP :: jschar where
  "ZWSP = 0x200B"

text \<open>\<^verbatim>\<open>addInvisibleUnique(text)\<close>: one to ten zero-width spaces are appended.\<close>

definition addInvisibleUnique :: "jsstring \<Rightarrow> rand \<Rightarrow> jsstring \<times> rand" where
  "addInvisibleUnique text rs =
     (let randomCount = randomIndex (shd rs) 10 + 1
      in (text @ replicate randomCount ZWSP, stl rs))"

text \<open>The dictionary of \<^verbatim>\<open>applyIndonesianSlang\<close>, in the order of its entries.\<close>

definition replacements :: "(jsstring \<times> jsstring list) list" where
  "replacements =
     [(js ''yang'', [js ''yg'', js ''yang'']),
      (js ''saya'', [js ''sy'', js ''aku'', js ''saya'']),
      (js ''tidak'', [js ''gak'', js ''enggak'', js ''tak'', js ''tidak'']),
      (js ''bisa'', [js ''bs'', js ''bisa'']),
      (js ''terima kasih'', [js ''makasih'', js ''trims'', js ''terima kasih'']),
      (js ''karena'', [js ''krn'', js ''karna'', js ''karena'']),
      (js ''sudah'', [js ''udh'', js ''sdh'', js ''sudah'']),
      (js ''bagaimana'', [js ''gimana'', js ''bagaimana'']),
      (js ''kak'', [js ''ka'', js ''kak'', js ''kakak''])]"

text \<open>Whether the text starts with a word character; false at the end of the text.\<close>

definition startsWithWordChar :: "jsstring \<Rightarrow> bool" where
  "startsWithWordChar s \<longleftrightarrow> (case s of [] \<Rightarrow> False | d # _ \<Rightarrow> isWordChar d)"

text \<open>
  \<^verbatim>\<open>newText.replace(new RegExp(`\\b${word}\\b`, 'gi'), ...)\<close> for one non-empty word of the
  dictionary. \<open>prevWord\<close> tells whether the character before the scan position is a word
  character; \<^verbatim>\<open>\b\<close> holds where exactly one side is a word character. A match is kept
  when the draw is above one half; otherwise a second draw picks the variation, which
  takes a capital first letter when the match starts with one. The scan goes on behind
  the match.
\<close>

function slangReplace ::
  "jsstring \<Rightarrow> jsstring list \<Rightarrow> bool \<Rightarrow> jsstring \<Rightarrow> rand \<Rightarrow> jsstring \<times> rand"
where
  "slangReplace word variations prevWord [] rs = ([], rs)"
| "slangReplace word variations prevWord (c # cs) rs =
     (let n = length word;
          m = take n (c # cs);
          rest = drop (n - 1) cs
      in if prevWord \<noteq> isWordChar c \<and> lowerASCII m = lowerASCII word \<and>
            isWordChar (last m) \<noteq> startsWithWordChar rest
         then
           (if shd rs > 1 / 2 then
              (let (out, rs') = slangReplace word variations (isWordChar (last m)) rest (stl rs)
               in (m @ out, rs'))
            else
              (let chosen = variations ! randomIndex (shd (stl rs)) (length variations);
                   replaced =
                     (if c = toUpperChar c
                      then upperASCII (take 1 chosen) @ drop 1 chosen
                      else chosen);
                   (out, rs') =
                     slangReplace word variations (isWordChar (last m)) rest (stl (stl rs))
               in (replaced @ out, rs')))
         else
           (let (out, rs') = slangReplace word variations (isWordChar c) cs rs
            in (c # out, rs')))"
  by pat_completeness auto
termination
  by (relation "measure (\<lambda>(word, variations, prevWord, text, rs). length text)") simp_all

text \<open>The loop over the entries of the dictionary, and \<^verbatim>\<open>applyIndonesianSlang(text)\<close>.\<close>

fun slangLoop :: "(jsstring \<times> jsstring list) list \<Rightarrow> jsstring \<Rightarrow> rand \<Rightarrow> jsstring \<times> rand" where
  "slangLoop [] text rs = (text, rs)"
| "slangLoop ((word, variations) # entries) text rs =
     (let (newText, rs') = slangReplace word variations False text rs
      in slangLoop entries newText rs')"

definition applyIndonesianSlang :: "jsstring \<Rightarrow> rand \<Rightarrow> jsstring \<times> rand" where
  "applyIndonesianSlang text rs = slangLoop replacements text rs"

text \<open>
  Whether a word of the dictionary occurs in the text, in any letter case and at any
  place.
\<close>

definition hasSlangWord :: "jsstring \<Rightarrow> bool" where
  "hasSlangWord text \<longleftrightarrow>
     list_ex (\<lambda>(word, variations). includes_str (lowerASCII text) (lowerASCII word))
       replacements"

text \<open>
  The \<^verbatim>\<open>processor\<close> of \<^verbatim>\<open>processBulkMessageBackground\<close>: greeting, spintax, invisible
  suffix, slang, in this order.
\<close>

definition processor :: "nat \<Rightarrow> jsstring \<Rightarrow> rand \<Rightarrow> jsstring \<times> rand" where
  "processor hour rawText rs =
     (let (txt1, rs1) = getTimeBasedGreeting hour rawText rs;
          (txt2, rs2) = processSpintax txt1 rs1;
          (txt3, rs3) = addInvisibleUnique txt2 rs2;
          (txt4, rs4) = applyIndonesianSlang txt3 rs3
      in (txt4, rs4))"

text \<open>
  The stage order the specification gives: greeting, spintax, slang, and the invisible
  suffix last.
\<close>

definition specProcessor :: "nat \<Rightarrow> jsstring \<Rightarrow> rand \<Rightarrow> jsstring \<times> rand" where
  "specProcessor hour rawText rs =
     (let (txt1, rs1) = getTimeBasedGreeting hour rawText rs;
          (txt2, rs2) = processSpintax txt1 rs1;
          (txt3, rs3) = applyIndonesianSlang txt2 rs2;
          (txt4, rs4) = addInvisibleUnique txt3 rs3
      in (txt4, rs4))"

section \<open>The background loop of a campaign\<close>

text \<open>
  \<^verbatim>\<open>processBulkMessageBackground(sessionId, data, delay, campaignId)\<close>. Before every item
  but the first the loop sleeps for a delay of the range; an exception of \<open>sendMessage\<close>
  is caught and logged, and the loop goes on. \<open>hourAt\<close> is the hour of the day when the
  item at an index is processed.
\<close>

fun bulkLoop ::
  "(jsstring \<Rightarrow> jsstring) \<Rightarrow> (jsstring \<rightharpoonup> sock) \<Rightarrow> (nat \<Rightarrow> nat) \<Rightarrow> jsstring \<Rightarrow> jsstring \<Rightarrow>
     nat \<Rightarrow> nat \<Rightarrow> bulkMessageData list \<Rightarrow> world \<Rightarrow> rand \<Rightarrow> world \<times> rand"
where
  "bulkLoop extname clients hourAt sessionId delay campaignId index [] w rs = (w, rs)"
| "bulkLoop extname clients hourAt sessionId delay campaignId index (item # items) w rs =
     (let (w1, rs1) =
            (if index > 0 then
               (let (delayInSeconds, rs') = getRandomDelay delay rs
                in (emit [Sleep (numMul delayInSeconds (Finite 1000))] w, rs'))
             else (w, rs));
          (finalMessageText, rs2) = processor (hourAt index) (item_message item) rs1;
          (result, w2) =
            sendMessage extname clients
              \<lparr>dto_sessionId = sessionId, dto_to = item_to item,
               dto_message = finalMessageText, dto_file = item_file item,
               dto_mediaType = item_mediaType item, dto_fileName = item_fileName item\<rparr>
              None (Some campaignId) w1
      in bulkLoop extname clients hourAt sessionId delay campaignId (Suc index) items w2 rs2)"

definition processBulkMessageBackground ::
  "(jsstring \<Rightarrow> jsstring) \<Rightarrow> (jsstring \<rightharpoonup> sock) \<Rightarrow> (nat \<Rightarrow> nat) \<Rightarrow> jsstring \<Rightarrow>
     bulkMessageData list \<Rightarrow> jsstring \<Rightarrow> nat \<Rightarrow> world \<Rightarrow> rand \<Rightarrow> world \<times> rand"
where
  "processBulkMessageBackground extname clients hourAt sessionId data delay campaignId w rs =
     bulkLoop extname clients hourAt sessionId delay campaignId 0 data w rs"

section \<open>Auto-reply\<close>

text \<open>An inbound message, by what \<^verbatim>\<open>handleAutoReply\<close> reads of it.\<close>

record inboundMessage =
  remoteJid :: jsstring
  conversation :: "jsstring option"
  extendedText :: "jsstring option"

text \<open>\<^verbatim>\<open>msg.message.conversation || msg.message.extendedTextMessage?.text || ''\<close>.\<close>

definition textBody :: "inboundMessage \<Rightarrow> jsstring" where
  "textBody msg =
     (if truthy (conversation msg) then the (conversation msg)
      else if truthy (extendedText msg) then the (extendedText msg)
      else [])"

text \<open>
  The campaign of the newest MessageLog row to this recipient that has a campaign
  (\<^verbatim>\<open>findFirst\<close> ordered by creation time, newest first).
\<close>

definition lastCampaignOf :: "jsstring \<Rightarrow> messageLog list \<Rightarrow> nat option" where
  "lastCampaignOf jid logs =
     (case filter (\<lambda>r. log_to r = jid \<and> log_campaignId r \<noteq> None) (rev logs) of
        [] \<Rightarrow> None
      | lastLog # _ \<Rightarrow> log_campaignId lastLog)"

text \<open>
  The inbound text, the trigger words and the match texts of the rules come from outside
  and may hold any character, so \<^verbatim>\<open>String.prototype.toLowerCase\<close> is the parameter
  \<open>toLowerCase\<close> of the functions of this section, as \<^verbatim>\<open>path.extname\<close> is above.

  \<^verbatim>\<open>traceWords.some((word) => lowerText.includes(word.toLowerCase()))\<close>.
\<close>

definition isMatch :: "(jsstring \<Rightarrow> jsstring) \<Rightarrow> jsstring list \<Rightarrow> jsstring \<Rightarrow> bool" where
  "isMatch toLowerCase words txt =
     list_ex (\<lambda>word. includes_str (toLowerCase txt) (toLowerCase word)) words"

text \<open>The two tests of the reply rules.\<close>

definition exactRule :: "(jsstring \<Rightarrow> jsstring) \<Rightarrow> jsstring \<Rightarrow> replyRule \<Rightarrow> bool" where
  "exactRule toLowerCase txt r \<longleftrightarrow> toLowerCase (receive r) = toLowerCase txt"

definition partialRule :: "(jsstring \<Rightarrow> jsstring) \<Rightarrow> jsstring \<Rightarrow> replyRule \<Rightarrow> bool" where
  "partialRule toLowerCase txt r \<longleftrightarrow>
     includes_str (toLowerCase txt) (toLowerCase (receive r))"

text \<open>
  The value of \<^verbatim>\<open>replyMessage\<close> after the two searches; empty when no rule matches.
\<close>

definition replyMessage ::
  "(jsstring \<Rightarrow> jsstring) \<Rightarrow> replyRule list \<Rightarrow> jsstring \<Rightarrow> jsstring"
where
  "replyMessage toLowerCase replyRules txt =
     (case find (exactRule toLowerCase txt) replyRules of
        Some exactMatch \<Rightarrow> reply exactMatch
      | None \<Rightarrow>
          (case find (partialRule toLowerCase txt) replyRules of
             Some partialMatch \<Rightarrow> reply partialMatch
           | None \<Rightarrow> []))"

text \<open>
  The end of \<^verbatim>\<open>handleAutoReply\<close>: nothing for an empty reply; else the delay, the sleep
  and the send, whose exception is caught and logged.
\<close>

definition sendReply ::
  "(jsstring \<Rightarrow> jsstring) \<Rightarrow> (jsstring \<rightharpoonup> sock) \<Rightarrow> jsstring \<Rightarrow> jsstring \<Rightarrow> jsstring \<Rightarrow>
     jsstring \<Rightarrow> world \<Rightarrow> rand \<Rightarrow> world \<times> rand"
where
  "sendReply extname clients sessionId jid delay msg w rs =
     (if msg = [] then (w, rs)
      else
        (let (delaySeconds, rs') = getRandomDelay delay rs;
             w1 = emit [Sleep (numMul delaySeconds (Finite 1000))] w;
             (result, w2) =
               sendMessage extname clients
                 \<lparr>dto_sessionId = sessionId, dto_to = jid, dto_message = msg,
                  dto_file = None, dto_mediaType = None, dto_fileName = None\<rparr>
                 None None w1
         in (w2, rs')))"

text \<open>\<^verbatim>\<open>handleAutoReply(sessionId, msg)\<close>.\<close>

definition handleAutoReply ::
  "(jsstring \<Rightarrow> jsstring) \<Rightarrow> (jsstring \<Rightarrow> jsstring) \<Rightarrow> (jsstring \<rightharpoonup> sock) \<Rightarrow> jsstring \<Rightarrow>
     inboundMessage \<Rightarrow> world \<Rightarrow> rand \<Rightarrow> world \<times> rand"
where
  "handleAutoReply toLowerCase extname clients sessionId msg w rs =
     (if textBody msg = [] then (w, rs)
      else
        (case lastCampaignOf (remoteJid msg) (messageLogs w) of
           None \<Rightarrow> (w, rs)
         | Some cid \<Rightarrow>
             (case autoReplies w cid of
                None \<Rightarrow> (w, rs)
              | Some config \<Rightarrow>
                  if \<not> isMatch toLowerCase (traceWords config) (textBody msg) then (w, rs)
                  else sendReply extname clients sessionId (remoteJid msg)
                         (delayReply config)
                         (replyMessage toLowerCase (replyMap config) (textBody msg)) w rs)))"

section \<open>Reading the effects\<close>

text \<open>
  \<open>precedes a b tr\<close>: after the first \<open>a\<close> of the trace there is a \<open>b\<close>.
\<close>

definition precedes :: "event \<Rightarrow> event \<Rightarrow> event list \<Rightarrow> bool" where
  "precedes a b tr \<longleftrightarrow> a \<noteq> b \<and> b \<in> set (dropWhile (\<lambda>x. x \<noteq> a) tr)"

section \<open>Sample data\<close>

text \<open>
  A world with empty tables; a handle that answers the registration query with
  \<open>registered\<close> and a send with \<open>answer\<close>; a registry that holds it as session \<open>s1\<close>; a
  request to the number \<open>0812-345\<close> with the text \<open>halo\<close>.
\<close>

definition emptyWorld :: world where
  "emptyWorld = \<lparr>messageLogs = [], campaigns = [], devices = Map.empty,
     autoReplies = Map.empty, trace = [], background = []\<rparr>"

definition demoSock :: "bool \<Rightarrow> exception + jsstring option \<Rightarrow> sock" where
  "demoSock registered answer =
     \<lparr>onWhatsApp = (\<lambda>_. Inr (Some registered)), sendPresenceUpdate = (\<lambda>_. None),
      sock_sendMessage = (\<lambda>_ _. answer)\<rparr>"

definition demoClients :: "sock \<Rightarrow> jsstring \<rightharpoonup> sock" where
  "demoClients sk = (\<lambda>sid. if sid = js ''s1'' then Some sk else None)"

definition demoDto :: "jsstring option \<Rightarrow> jsstring option \<Rightarrow> sendMessageDto" where
  "demoDto file mediaType =
     \<lparr>dto_sessionId = js ''s1'', dto_to = js ''0812-345'', dto_message = js ''halo'',
      dto_file = file, dto_mediaType = mediaType, dto_fileName = None\<rparr>"

definition demoBulk :: "jsstring \<Rightarrow> sendBulkMessageDto" where
  "demoBulk sid =
     \<lparr>bulk_sessionId = sid,
      bulk_data =
        [\<lparr>item_to = js ''0812-345'', item_message = js ''halo'', item_file = None,
          item_mediaType = None, item_fileName = None\<rparr>,
         \<lparr>item_to = js ''0813-777'', item_message = js ''hai'', item_file = None,
          item_mediaType = None, item_fileName = None\<rparr>],
      bulk_delay = js ''3-7'', bulk_title = js ''Promo''\<rparr>"

definition sentLog :: messageLog where
  "sentLog = \<lparr>log_to = js ''0812345@s.whatsapp.net'', log_body = js ''halo'',
     log_status = SENT, log_waMessageId = Some (js ''3EB0''), log_userId = None,
     log_campaignId = None\<rparr>"

definition deliveryAck :: messageUpdate where
  "deliveryAck = \<lparr>key_id = Value (js ''3EB0''), key_fromMe = True,
     update_status = Some DELIVERY_ACK\<rparr>"

text \<open>
  A campaign with an auto-reply configuration, a world in which one message of that
  campaign went to the number above, and an inbound text message from that number.
\<close>

definition demoConfig :: campaignAutoReply where
  "demoConfig =
     \<lparr>traceWords = [js ''halo'', js ''hai''],
      replyMap =
        [\<lparr>receive = js ''harga'', reply = js ''Harga 10rb''\<rparr>,
         \<lparr>receive = js ''halo'', reply = js ''Halo juga''\<rparr>,
         \<lparr>receive = js ''hal'', reply = js ''Ya?''\<rparr>],
      delayReply = js ''3-7''\<rparr>"

definition campaignWorld :: world where
  "campaignWorld =
     emptyWorld
       \<lparr>messageLogs :=
          [\<lparr>log_to = js ''0812345@s.whatsapp.net'', log_body = js ''promo'',
            log_status = SENT, log_waMessageId = Some (js ''3EB0''), log_userId = None,
            log_campaignId = Some 0\<rparr>],
        campaigns := [\<lparr>campaign_title = js ''Promo''\<rparr>],
        autoReplies := (\<lambda>cid. if cid = 0 then Some demoConfig else None)\<rparr>"

definition inbound :: "jsstring \<Rightarrow> inboundMessage" where
  "inbound txt =
     \<lparr>remoteJid = js ''0812345@s.whatsapp.net'', conversation = Some txt,
      extendedText = None\<rparr>"

section \<open>Facts about numbers\<close>

text \<open>
  The exponent is the binary exponent; rounding moves a real by at most half the distance
  between doubles, keeps a double, and keeps every integer up to \<open>2 ^ 53\<close>; a double below
  1 is at most \<open>1 - 2 ^ - 53\<close>, so the rounded product of a draw and a number \<open>n\<close> from 1 on
  stays below \<open>n\<close>.
\<close>

lemma pow_le_real: "2 ^ k \<le> (n::int) \<Longrightarrow> (2::real) ^ k \<le> real_of_int n"
  using of_int_le_iff [of "2 ^ k" n, where 'a = real] by simp

lemma less_pow_real: "(n::int) < 2 ^ k \<Longrightarrow> real_of_int n + 1 \<le> 2 ^ k"
  using of_int_le_iff [of "n + 1" "2 ^ k", where 'a = real] by simp

lemma powi_nat: "0 \<le> k \<Longrightarrow> (2::real) powi k = 2 ^ nat k"
  by (simp add: power_int_def)

lemma powi_neg: "0 \<le> k \<Longrightarrow> (2::real) powi (- k) = 1 / 2 ^ nat k"
  by (cases "k = 0") (simp_all add: power_int_def power_one_over)

lemma exponent_bounds:
  assumes "x \<noteq> 0"
  shows "2 powi exponent x \<le> \<bar>x\<bar> \<and> \<bar>x\<bar> < 2 powi (exponent x + 1)"
proof (cases "1 \<le> \<bar>x\<bar>")
  case True
  define n where "n = \<lfloor>\<bar>x\<bar>\<rfloor>"
  have n: "0 < n" using True by (simp add: n_def)
  have e: "exponent x = bitlen n - 1" using True by (simp add: exponent_def n_def)
  have b: "1 \<le> bitlen n" using n by (simp add: bitlen_alt_def)
  from bitlen_bounds [OF n] have lo: "2 ^ nat (bitlen n - 1) \<le> n" and hi: "n < 2 ^ nat (bitlen n)"
    by simp_all
  have nx: "real_of_int n \<le> \<bar>x\<bar>" "\<bar>x\<bar> < real_of_int n + 1"
    unfolding n_def by linarith+
  have p1: "2 powi exponent x = (2::real) ^ nat (bitlen n - 1)"
    using b by (simp add: e power_int_def)
  have p2: "2 powi (exponent x + 1) = (2::real) ^ nat (bitlen n)"
    using b by (simp add: e power_int_def)
  have 1: "2 powi exponent x \<le> \<bar>x\<bar>"
    unfolding p1 using pow_le_real [OF lo] nx by linarith
  have 2: "\<bar>x\<bar> < 2 powi (exponent x + 1)"
    unfolding p2 using less_pow_real [OF hi] nx by linarith
  from 1 2 show ?thesis ..
next
  case False
  define y where "y = 1 / \<bar>x\<bar>"
  have x: "0 < \<bar>x\<bar>" "\<bar>x\<bar> < 1" using assms False by simp_all
  have y: "1 < y" using x by (simp add: y_def)
  define m where "m = \<lceil>y\<rceil> - 1"
  have m: "0 < m" using y by (simp add: m_def)
  have e: "exponent x = - bitlen m" using False by (simp add: exponent_def m_def y_def)
  have b: "1 \<le> bitlen m" using m by (simp add: bitlen_alt_def)
  from bitlen_bounds [OF m] have lo: "2 ^ nat (bitlen m - 1) \<le> m" and hi: "m < 2 ^ nat (bitlen m)"
    by simp_all
  have my: "real_of_int m < y" "y \<le> real_of_int m + 1"
    unfolding m_def by linarith+
  have yk: "y \<le> 2 ^ nat (bitlen m)"
    using less_pow_real [OF hi] my by linarith
  have ky: "2 ^ nat (bitlen m - 1) < y"
    using pow_le_real [OF lo] my by linarith
  have xy: "\<bar>x\<bar> = 1 / y" using x by (simp add: y_def)
  have 1: "2 powi exponent x \<le> \<bar>x\<bar>"
  proof -
    have "2 powi exponent x = 1 / (2::real) ^ nat (bitlen m)"
      using b by (simp add: e powi_neg)
    also have "\<dots> \<le> 1 / y"
      using yk y by (intro divide_left_mono) simp_all
    finally show ?thesis by (simp add: xy)
  qed
  have 2: "\<bar>x\<bar> < 2 powi (exponent x + 1)"
  proof -
    have "1 / y < 1 / 2 ^ nat (bitlen m - 1)"
      using ky y by (intro divide_strict_left_mono) simp_all
    also have "\<dots> = 2 powi (- (bitlen m - 1))"
      using b powi_neg [of "bitlen m - 1"] by simp
    also have "- (bitlen m - 1) = exponent x + 1"
      by (simp add: e)
    finally show ?thesis by (simp add: xy)
  qed
  from 1 2 show ?thesis ..
qed


lemma exponent_less:
  assumes "x \<noteq> 0" "\<bar>x\<bar> < 2 powi k"
  shows "exponent x < k"
proof (rule ccontr)
  assume "\<not> exponent x < k"
  then have "(2::real) powi k \<le> 2 powi exponent x"
    by (intro power_int_increasing) simp_all
  with exponent_bounds [OF assms(1)] assms(2) show False by linarith
qed

lemma exponent_ge:
  assumes "2 powi k \<le> \<bar>x\<bar>"
  shows "k \<le> exponent x"
proof (rule ccontr)
  assume "\<not> k \<le> exponent x"
  then have "(2::real) powi (exponent x + 1) \<le> 2 powi k"
    by (intro power_int_increasing) simp_all
  moreover have "0 < (2::real) powi k" by (rule zero_less_power_int) simp
  then have "0 < \<bar>x\<bar>" using assms by linarith
  then have "x \<noteq> 0" by simp
  ultimately show False using exponent_bounds [of x] assms by linarith
qed

lemma exponent_eq:
  assumes "2 powi k \<le> \<bar>x\<bar>" "\<bar>x\<bar> < 2 powi (k + 1)"
  shows "exponent x = k"
proof -
  have "0 < (2::real) powi k" by (rule zero_less_power_int) simp
  then have "0 < \<bar>x\<bar>" using assms by linarith
  then have "x \<noteq> 0" by simp
  then have "exponent x < k + 1" using assms(2) by (rule exponent_less)
  with exponent_ge [OF assms(1)] show ?thesis by simp
qed

lemma ulp_pos: "0 < ulp x"
  by (simp add: ulp_def zero_less_power_int)

lemma roundHalfEven_error: "\<bar>real_of_int (roundHalfEven y) - y\<bar> \<le> 1 / 2"
  unfolding roundHalfEven_def Let_def by (auto; linarith)

lemma roundHalfEven_of_int [simp]: "roundHalfEven (real_of_int k) = k"
  by (simp add: roundHalfEven_def)

lemma roundHalfEven_ge: "real_of_int K \<le> y \<Longrightarrow> K \<le> roundHalfEven y"
  unfolding roundHalfEven_def Let_def by (auto; linarith)


lemma roundDouble_error: "\<bar>roundDouble x - x\<bar> \<le> ulp x / 2"
proof (cases "x = 0")
  case True
  then show ?thesis using ulp_pos [of 0] by (simp add: roundDouble_def)
next
  case False
  have "roundDouble x - x = (real_of_int (roundHalfEven (x / ulp x)) - x / ulp x) * ulp x"
    using False ulp_pos [of x] by (simp add: roundDouble_def left_diff_distrib)
  then have "\<bar>roundDouble x - x\<bar> = \<bar>real_of_int (roundHalfEven (x / ulp x)) - x / ulp x\<bar> * ulp x"
    using ulp_pos [of x] by (simp add: abs_mult)
  also have "\<dots> \<le> 1 / 2 * ulp x"
    using roundHalfEven_error [of "x / ulp x"] ulp_pos [of x]
    by (intro mult_right_mono) simp_all
  finally show ?thesis by simp
qed

lemma roundDouble_nonneg: "0 \<le> x \<Longrightarrow> 0 \<le> roundDouble x"
  using roundHalfEven_ge [of 0 "x / ulp x"] ulp_pos [of x]
  by (simp add: roundDouble_def)

lemma roundDouble_exact:
  assumes "x / ulp x = real_of_int m"
  shows "roundDouble x = x"
proof -
  have "real_of_int (roundHalfEven (x / ulp x)) * ulp x = x / ulp x * ulp x"
    by (simp add: assms)
  also have "\<dots> = x" using ulp_pos [of x] by simp
  finally show ?thesis by (simp add: roundDouble_def)
qed


lemma ulp_powi: "ulp x = 2 powi max (exponent x - 52) (- 1074)"
  by (simp add: ulp_def)

lemma powi_add: "(2::real) powi (a + b) = 2 powi a * 2 powi b"
  by (rule power_int_add) simp

lemma powi_53: "(2::real) powi 53 = 2 ^ 53"
  by (simp add: power_int_def)




lemma roundDouble_of_int:
  assumes "\<bar>i\<bar> \<le> 2 ^ 53"
  shows "roundDouble (real_of_int i) = real_of_int i"
proof (cases "i = 0")
  case True
  then show ?thesis by (simp add: roundDouble_def)
next
  case False
  define x where "x = real_of_int i"
  have x0: "x \<noteq> 0" using False by (simp add: x_def)
  have "real_of_int \<bar>i\<bar> \<le> real_of_int (2 ^ 53)"
    using assms by (simp only: of_int_le_iff)
  then have ax: "\<bar>x\<bar> \<le> 2 ^ 53" by (simp add: x_def)
  define j where "j = max (exponent x - 52) (- 1074)"
  have u: "ulp x = 2 powi j" by (simp add: ulp_def j_def)
  have "\<bar>x\<bar> < 2 powi 54" using ax by (simp add: power_int_def)
  then have e: "exponent x < 54" using x0 by (intro exponent_less)
  then have j1: "j \<le> 1" by (simp add: j_def)
  have "roundDouble x = x"
  proof (cases "j \<le> 0")
    case True
    have "(2::real) powi j * 2 powi (- j) = 1"
      using powi_add [of j "- j"] by simp
    moreover have "(2::real) powi (- j) = 2 ^ nat (- j)"
      using True by (intro powi_nat) simp
    ultimately have inv: "1 / (2::real) powi j = 2 ^ nat (- j)"
      by (simp add: field_simps)
    have "x / ulp x = x * (1 / 2 powi j)" by (simp add: u)
    also have "\<dots> = x * 2 ^ nat (- j)" by (simp only: inv)
    also have "\<dots> = real_of_int (i * 2 ^ nat (- j))" by (simp add: x_def)
    finally show ?thesis by (rule roundDouble_exact)
  next
    case False
    then have j: "j = 1" using j1 by simp
    then have "exponent x = 53" using e by (simp add: j_def max_def split: if_splits)
    then have "2 powi 53 \<le> \<bar>x\<bar>" using exponent_bounds [OF x0] by simp
    then have "\<bar>x\<bar> = 2 ^ 53" using ax by (simp add: powi_53)
    then have "real_of_int \<bar>i\<bar> = real_of_int (2 ^ 53)" by (simp add: x_def)
    then have "\<bar>i\<bar> = 2 ^ 53" by (simp only: of_int_eq_iff)
    then have "even \<bar>i\<bar>" by simp
    then have "even i" by simp
    then obtain h where h: "i = 2 * h" by (auto elim: evenE)
    have "x / ulp x = x / 2 powi 1" by (simp only: u j)
    also have "\<dots> = real_of_int h"
      by (simp add: x_def h)
    finally show ?thesis by (rule roundDouble_exact)
  qed
  then show ?thesis by (simp add: x_def)
qed


lemma isDouble_round: "isDouble r \<Longrightarrow> roundDouble r = r"
  by (simp add: isDouble_def toDouble_def Let_def split: if_splits)

lemma powi_diff_52: "(2::real) powi (k - 52) = 2 powi k / 2 ^ 52"
  using powi_add [of k "- 52"] powi_neg [of 52] by simp

lemma powi_diff_53: "(2::real) powi (k - 53) = 2 powi k / 2 ^ 53"
  using powi_add [of k "- 53"] powi_neg [of 53] by simp

lemma double_below_one:
  assumes "isDouble r" "0 \<le> r" "r < 1"
  shows "r \<le> 1 - 1 / 2 ^ 53"
proof (cases "r < 1 / 2")
  case True
  then show ?thesis by simp
next
  case False
  have "exponent r = - 1"
    using False assms by (intro exponent_eq) (simp_all add: power_int_def)
  then have u: "ulp r = 1 / 2 ^ 53"
    using powi_neg [of 53] by (simp add: ulp_def)
  define m where "m = roundHalfEven (r / ulp r)"
  have "r \<noteq> 0" using False by simp
  then have "r = real_of_int m * (1 / 2 ^ 53)"
    using isDouble_round [OF assms(1)] by (simp add: roundDouble_def m_def u)
  then have rm: "r * 2 ^ 53 = real_of_int m" by simp
  then have "real_of_int m < real_of_int (2 ^ 53)" using assms(3) by simp
  then have "m < 2 ^ 53" by (simp only: of_int_less_iff)
  then have "m \<le> 2 ^ 53 - 1" by simp
  then have "real_of_int m \<le> real_of_int (2 ^ 53 - 1)" by (simp only: of_int_le_iff)
  moreover have "real_of_int (2 ^ 53 - 1) = 2 ^ 53 - 1" by simp
  ultimately have "r * 2 ^ 53 \<le> 2 ^ 53 - 1" using rm by linarith
  then show ?thesis by (simp add: field_simps)
qed

lemma roundDouble_scaled:
  assumes "isDouble r" "0 \<le> r" "r < 1" "1 \<le> n"
  shows "roundDouble (r * n) < n"
proof (cases "r * n = 0")
  case True
  then show ?thesis using assms(4) by (simp add: roundDouble_def)
next
  case False
  define x where "x = r * n"
  define k where "k = exponent n"
  define P where "P = (2::real) powi k"
  have x0: "x \<noteq> 0" using False by (simp add: x_def)
  have xpos: "0 < x" using x0 assms by (simp add: x_def)
  have "r * n \<le> (1 - 1 / 2 ^ 53) * n"
    using double_below_one [OF assms(1-3)] assms(4) by (intro mult_right_mono) simp_all
  then have xn: "x \<le> n - n / 2 ^ 53" by (simp add: x_def left_diff_distrib)
  have n0: "n \<noteq> 0" using assms(4) by simp
  have nb: "P \<le> n" "n < 2 powi (k + 1)"
    using exponent_bounds [OF n0] assms(4) by (simp_all add: k_def P_def)
  have Ppos: "0 < P" unfolding P_def by (rule zero_less_power_int) simp
  have err: "roundDouble x \<le> x + ulp x / 2"
    using roundDouble_error [of x] by linarith
  show ?thesis
  proof (cases "P < n")
    case True
    have "\<bar>x\<bar> < 2 powi (k + 1)" using xn xpos nb assms(4) by simp
    then have "exponent x < k + 1" using x0 by (intro exponent_less)
    moreover have "0 \<le> k" unfolding k_def using assms(4) by (intro exponent_ge) simp
    ultimately have "max (exponent x - 52) (- 1074) \<le> k - 52" by simp
    then have "ulp x \<le> 2 powi (k - 52)"
      unfolding ulp_powi by (intro power_int_increasing) simp_all
    then have "ulp x / 2 \<le> P / 2 ^ 53" by (simp add: powi_diff_52 P_def)
    then have "roundDouble x \<le> n - n / 2 ^ 53 + P / 2 ^ 53" using err xn by linarith
    also have "\<dots> < n" using True by (simp add: field_simps)
    finally show ?thesis by (simp add: x_def)
  next
    case False
    then have nP: "n = P" using nb by simp
    have xP: "x \<le> P - P / 2 ^ 53" using xn nP by simp
    have "x < P" using xP Ppos by simp
    then have "\<bar>x\<bar> < 2 powi k" using xpos by (simp add: P_def)
    then have "exponent x < k" using x0 by (intro exponent_less)
    moreover have "0 \<le> k" unfolding k_def using assms(4) by (intro exponent_ge) simp
    ultimately have "max (exponent x - 52) (- 1074) \<le> k - 53" by simp
    then have "ulp x \<le> 2 powi (k - 53)"
      unfolding ulp_powi by (intro power_int_increasing) simp_all
    then have "ulp x / 2 \<le> P / 2 ^ 54" by (simp add: powi_diff_53 P_def)
    then have "roundDouble x \<le> P - P / 2 ^ 53 + P / 2 ^ 54" using err xP by linarith
    also have "\<dots> < P" using Ppos by (simp add: field_simps)
    finally show ?thesis by (simp add: x_def nP)
  qed
qed

lemma toDouble_of_int:
  assumes "\<bar>i\<bar> \<le> 2 ^ 53"
  shows "toDouble (real_of_int i) = Finite (real_of_int i)"
proof -
  have r: "roundDouble (real_of_int i) = real_of_int i"
    using assms by (rule roundDouble_of_int)
  have "real_of_int \<bar>i\<bar> \<le> real_of_int (2 ^ 53)"
    using assms by (simp only: of_int_le_iff)
  then have "\<bar>real_of_int i\<bar> \<le> 2 ^ 53" by simp
  moreover have "(2::real) ^ 53 < 2 ^ 1024" by simp
  ultimately have "- (2 ^ 1024) < real_of_int i" "real_of_int i < 2 ^ 1024"
    by linarith+
  then show ?thesis
    by (simp add: toDouble_def Let_def r)
qed

lemma toDouble_numeral:
  "(numeral n :: int) \<le> 2 ^ 53 \<Longrightarrow> toDouble (numeral n) = Finite (numeral n)"
  using toDouble_of_int [of "numeral n"] by simp

lemma toDouble_0 [simp]: "toDouble 0 = Finite 0"
  using toDouble_of_int [of 0] by simp

lemma toDouble_1 [simp]: "toDouble 1 = Finite 1"
  using toDouble_of_int [of 1] by simp



text \<open>
  \<^verbatim>\<open>Math.floor(Math.random() * n)\<close> is an index from 0 to \<open>n - 1\<close>, for every double that
  can be drawn.
\<close>

lemma numMul_draw:
  assumes "isDouble r" "0 \<le> r" "r < 1" "1 \<le> n" "n \<le> 2 ^ 1024"
  shows "numMul (Finite r) (Finite n) = Finite (roundDouble (r * n))"
proof -
  have "roundDouble (r * n) < n" using assms(1-4) by (rule roundDouble_scaled)
  moreover have "0 \<le> roundDouble (r * n)" using assms by (intro roundDouble_nonneg) simp
  ultimately show ?thesis using assms(5) by (simp add: toDouble_def Let_def)
qed

lemma randomIndex_less:
  assumes "isDouble r" "0 \<le> r" "r < 1" "0 < n"
  shows "randomIndex r n < n"
proof -
  have "roundDouble (r * real n) < real n"
    using assms by (intro roundDouble_scaled) simp_all
  moreover have "0 \<le> roundDouble (r * real n)" using assms by (intro roundDouble_nonneg) simp
  ultimately have "0 \<le> \<lfloor>roundDouble (r * real n)\<rfloor>" "\<lfloor>roundDouble (r * real n)\<rfloor> < int n"
    by (simp_all add: floor_less_iff)
  then show ?thesis
    unfolding randomIndex_def by (simp only: nat_less_iff)
qed

text \<open>
  \<^verbatim>\<open>Math.floor(Math.random() * (max - min + 1)) + min\<close> for two integers from 0 up to
  \<open>2 ^ 53\<close>, where no operation rounds but the product.
\<close>

lemma delay_value:
  assumes "isDouble r" "0 \<le> r" "r < 1" and "0 \<le> lo" "lo \<le> hi" "hi < 2 ^ 53"
  shows "numAdd
           (numFloor (numMul (Finite r)
              (numAdd (numSub (Finite (of_int hi)) (Finite (of_int lo))) (Finite 1))))
           (Finite (of_int lo)) =
         Finite (of_int (lo + int (randomIndex r (nat (hi - lo + 1)))))"
proof -
  define d where "d = hi - lo + 1"
  have d: "1 \<le> d" "d \<le> 2 ^ 53" using assms by (simp_all add: d_def)
  have "toDouble (real_of_int (hi - lo)) = Finite (real_of_int (hi - lo))"
    using assms by (intro toDouble_of_int) simp
  then have s1: "numSub (Finite (of_int hi)) (Finite (of_int lo)) = Finite (of_int (hi - lo))"
    by (simp add: numSub_def)
  have "toDouble (real_of_int d) = Finite (real_of_int d)"
    using d by (intro toDouble_of_int) simp
  then have s2: "numAdd (Finite (of_int (hi - lo))) (Finite 1) = Finite (of_int d)"
    by (simp add: d_def)
  have "real_of_int d \<le> real_of_int (2 ^ 53)" using d by (simp only: of_int_le_iff)
  moreover have "(2::real) ^ 53 \<le> 2 ^ 1024" by simp
  ultimately have d1024: "real_of_int d \<le> 2 ^ 1024" by simp
  have d1: "1 \<le> real_of_int d" using d by simp
  have s3: "numMul (Finite r) (Finite (of_int d)) = Finite (roundDouble (r * of_int d))"
    using assms(1-3) d1 d1024 by (rule numMul_draw)
  define k where "k = \<lfloor>roundDouble (r * real_of_int d)\<rfloor>"
  have "roundDouble (r * real_of_int d) < real_of_int d"
    using assms(1-3) d1 by (rule roundDouble_scaled)
  moreover have "0 \<le> roundDouble (r * real_of_int d)"
    using assms d1 by (intro roundDouble_nonneg) simp
  ultimately have k: "0 \<le> k" "k < d" by (simp_all add: k_def floor_less_iff)
  have "real (nat d) = real_of_int d" using d by simp
  then have ri: "int (randomIndex r (nat (hi - lo + 1))) = k"
    using k by (simp add: randomIndex_def k_def d_def)
  have "toDouble (real_of_int (k + lo)) = Finite (real_of_int (k + lo))"
    using k assms by (intro toDouble_of_int) (simp add: d_def)
  then have s4: "numAdd (Finite (of_int k)) (Finite (of_int lo)) = Finite (of_int (k + lo))"
    by simp
  have "numAdd
           (numFloor (numMul (Finite r)
              (numAdd (numSub (Finite (of_int hi)) (Finite (of_int lo))) (Finite 1))))
           (Finite (of_int lo)) = Finite (of_int (k + lo))"
    by (simp only: s1 s2 s3 numFloor.simps k_def [symmetric] s4)
  also have "k + lo = lo + int (randomIndex r (nat (hi - lo + 1)))"
    using ri by linarith
  finally show ?thesis .
qed

section \<open>Facts about strings\<close>

lemma splitOn_not_Nil: "splitOn d s \<noteq> []"
  by (induction s) (simp_all add: Let_def)

lemma getRandomDelay_tokens:
  "getRandomDelay rng rs =
     (if isNaN (firstToken rng) then (Finite 10, rs)
      else
        (let mn = firstToken rng;
             mx = (if isNaN (secondToken rng) then mn else secondToken rng);
             lo = (if numGreater mn mx then mx else mn);
             hi = (if numGreater mn mx then mn else mx)
         in (numAdd
               (numFloor (numMul (Finite (shd rs)) (numAdd (numSub hi lo) (Finite 1))))
               lo,
             stl rs)))"
proof (cases "splitOn 0x2D rng")
  case Nil
  then show ?thesis using splitOn_not_Nil by blast
next
  case (Cons a as)
  then show ?thesis
    by (cases as) (simp_all add: getRandomDelay_def firstToken_def secondToken_def Let_def)
qed

lemmas token_defs = firstToken_def secondToken_def js_def parseInt_def trim_def
  startsWith_def Let_def isWhiteSpace_def digitValue_def isDigit_def isLower_def isUpper_def
  toDouble_numeral

lemma tokens_3_7: "firstToken (js ''3-7'') = Finite 3 \<and> secondToken (js ''3-7'') = Finite 7"
  by (simp add: token_defs)




text \<open>
  A token above \<open>2 ^ 53\<close> is read as the nearest double, and a one followed by 309 zeros as
  \<^verbatim>\<open>Infinity\<close>.
\<close>

lemmas round_defs = toDouble_def roundDouble_def ulp_def exponent_def roundHalfEven_def
  Let_def compute_bitlen



text \<open>
  The draws and the indices of the examples below.
\<close>

lemma roundDouble_0 [simp]: "roundDouble 0 = 0"
  by (simp add: roundDouble_def)

lemma sample_draws: "isDouble 0 \<and> isDouble (1 / 8) \<and> isDouble (7 / 8)"
  by (simp add: isDouble_def round_defs)

lemma sample_indices:
  "randomIndex 0 n = 0" "randomIndex (7 / 8) 5 = 4" "randomIndex (7 / 8) 3 = 2"
  "randomIndex (7 / 8) (Suc (Suc (Suc 0))) = 2" "randomIndex (1 / 8) 10 = 1"
  by (simp_all add: randomIndex_def round_defs)

lemma sample_streams:
  "unitInterval (sconst 0)" "unitInterval (0 ## 0 ## 7 / 8 ## 1 / 8 ## sconst 0)"
  using sample_draws by (simp_all add: unitInterval_def)

section \<open>Facts about sending\<close>

lemmas eval_defs = js_def formatRecipient_def isCanonical_def endsWith_def startsWith_def
  isDigit_def checkRegistration_def demoSock_def demoClients_def demoDto_def emptyWorld_def
  emit_def typingDuration_def pendingLog_def hasAttachment_def truthy_def
  tryTransmit_def resolveContent_def resolveMedia_def markSent_def updateStatus_def
  waMessageIdTaken_def SessionNotFound_def RecipientNotRegistered_def MediaTypeRequired_def
  UnsupportedMediaType_def NoMediaSource_def

lemma emit_fields [simp]:
  "messageLogs (emit es w) = messageLogs w"
  "campaigns (emit es w) = campaigns w"
  "devices (emit es w) = devices w"
  "autoReplies (emit es w) = autoReplies w"
  "background (emit es w) = background w"
  "trace (emit es w) = trace w @ es"
  by (simp_all add: emit_def)

lemma emit_emit [simp]: "emit es (emit es' w) = emit (es' @ es) w"
  by (simp add: emit_def)

lemma emit_messageLogs_update [simp]:
  "emit es w\<lparr>messageLogs := ls\<rparr> = emit es (w\<lparr>messageLogs := ls\<rparr>)"
  by (simp add: emit_def)

lemma pendingLog_emit [simp]:
  "pendingLog dto mediaFile campaignId (emit es w) = pendingLog dto mediaFile campaignId w"
  by (simp add: pendingLog_def)

lemma updateStatus_fields [simp]:
  "messageLogs (updateStatus i st w) =
     (messageLogs w)[i := (messageLogs w ! i)\<lparr>log_status := st\<rparr>]"
  "campaigns (updateStatus i st w) = campaigns w"
  "trace (updateStatus i st w) = trace w @ [LogUpdated i st]"
  "background (updateStatus i st w) = background w"
  by (simp_all add: updateStatus_def)

text \<open>
  Once the session is live, the recipient passes the registration check and the presence
  update goes through, \<open>sendMessage\<close> announces typing, sleeps, creates the row and runs the
  \<^verbatim>\<open>try\<close> block.
\<close>

lemma sendMessage_accepted:
  assumes "clients (dto_sessionId dto) = Some sk"
    and "checkRegistration sk (dto_to dto) = None"
    and "sendPresenceUpdate sk (formatRecipient (dto_to dto)) = None"
  shows "sendMessage extname clients dto mediaFile campaignId w =
     (let f = formatRecipient (dto_to dto);
          i = length (messageLogs w);
          row = pendingLog dto mediaFile campaignId w;
          w4 = emit ((if isCanonical (dto_to dto) then [RegistrationQuery f] else []) @
                   [Composing f, Sleep (Finite (of_int (typingDuration (dto_message dto)))), LogCreated i])
                 (w\<lparr>messageLogs := messageLogs w @ [row]\<rparr>)
      in case tryTransmit extname sk f dto mediaFile i w4 of
           (None, w5) \<Rightarrow> (Inr (Success i row), w5)
         | (Some e, w5) \<Rightarrow> (Inr (Failed (message e)), updateStatus i FAILED w5))"
  using assms
  by (simp add: sendMessage_def Let_def split: prod.split option.split)

lemma tryTransmit_cases:
  "tryTransmit extname sk f dto mediaFile i w =
     (case resolveContent extname dto mediaFile of
        Inl e \<Rightarrow> (Some e, w)
      | Inr c \<Rightarrow>
          (case sock_sendMessage sk f c of
             Inl e \<Rightarrow> (Some e, emit [Transmit f c] w)
           | Inr waId \<Rightarrow>
               (case markSent i waId (emit [Transmit f c] w) of
                  Inl e \<Rightarrow> (Some e, emit [Transmit f c] w)
                | Inr w2 \<Rightarrow> (None, w2))))"
  by (simp add: tryTransmit_def Let_def split: sum.split)

lemma markSent_logs:
  assumes "markSent i waId w = Inr w2"
    and "log_waMessageId (messageLogs w ! i) = None"
  shows "messageLogs w2 =
     (messageLogs w)[i := (messageLogs w ! i)\<lparr>log_status := SENT, log_waMessageId := waId\<rparr>]"
  using assms
  by (cases "messageLogs w ! i") (auto simp: markSent_def split: option.splits if_splits)

lemma markSent_trace:
  assumes "markSent i waId w = Inr w2"
  shows "trace w2 = trace w @ [LogUpdated i SENT]"
  using assms
  by (auto simp: markSent_def split: option.splits if_splits)

lemma markSent_length:
  "markSent i waId w = Inr w2 \<Longrightarrow> length (messageLogs w2) = length (messageLogs w)"
  by (auto simp: markSent_def split: option.splits if_splits)

lemma tryTransmit_length:
  "length (messageLogs (snd (tryTransmit extname sk f dto mediaFile i w))) =
     length (messageLogs w)"
  by (auto simp: tryTransmit_cases markSent_length split: sum.splits)

lemma sendMessage_accepted_row:
  assumes "clients (dto_sessionId dto) = Some sk"
    and "checkRegistration sk (dto_to dto) = None"
    and "sendPresenceUpdate sk (formatRecipient (dto_to dto)) = None"
  shows "length (messageLogs (snd (sendMessage extname clients dto mediaFile campaignId w))) =
           Suc (length (messageLogs w))"
proof -
  let ?f = "formatRecipient (dto_to dto)"
  let ?i = "length (messageLogs w)"
  let ?w4 = "emit ((if isCanonical (dto_to dto) then [RegistrationQuery ?f] else []) @
                   [Composing ?f, Sleep (Finite (of_int (typingDuration (dto_message dto)))), LogCreated ?i])
                 (w\<lparr>messageLogs := messageLogs w @ [pendingLog dto mediaFile campaignId w]\<rparr>)"
  obtain r w5 where t: "tryTransmit extname sk ?f dto mediaFile ?i ?w4 = (r, w5)"
    by (cases "tryTransmit extname sk ?f dto mediaFile ?i ?w4")
  have "length (messageLogs w5) = length (messageLogs ?w4)"
    using tryTransmit_length [of extname sk ?f dto mediaFile ?i ?w4] t by simp
  then show ?thesis
    using t
    by (simp add: sendMessage_accepted [where clients = clients and dto = dto and sk = sk,
          OF assms] Let_def split: option.split)
qed

text \<open>
  The loop of a campaign writes one row for every item whose recipient passes the
  checks, whatever the transmit calls do: a failed item does not end the loop.
\<close>

lemma bulkLoop_row_per_item:
  assumes "clients sessionId = Some sk"
    and "\<forall>item \<in> set items.
           checkRegistration sk (item_to item) = None \<and>
           sendPresenceUpdate sk (formatRecipient (item_to item)) = None"
  shows "length (messageLogs (fst (bulkLoop extname clients hourAt sessionId delay campaignId
                                     index items w rs))) =
           length (messageLogs w) + length items"
  using assms(2)
proof (induction items arbitrary: index w rs)
  case Nil
  show ?case by simp
next
  case (Cons item items)
  have ok: "checkRegistration sk (item_to item) = None"
    "sendPresenceUpdate sk (formatRecipient (item_to item)) = None"
    using Cons.prems by simp_all
  have rest: "\<forall>item \<in> set items.
           checkRegistration sk (item_to item) = None \<and>
           sendPresenceUpdate sk (formatRecipient (item_to item)) = None"
    using Cons.prems by simp
  have row: "length (messageLogs (snd (sendMessage extname clients
        \<lparr>dto_sessionId = sessionId, dto_to = item_to item, dto_message = body,
         dto_file = item_file item, dto_mediaType = item_mediaType item,
         dto_fileName = item_fileName item\<rparr> None (Some campaignId) w1))) =
      Suc (length (messageLogs w1))" for body w1
    by (rule sendMessage_accepted_row [where sk = sk]) (simp_all add: assms(1) ok)
  show ?case
    by (simp add: Let_def case_prod_beta Cons.IH [OF rest] row)
qed

text \<open>
  An exception that reaches the caller of \<open>sendMessage\<close> (no live handle, an unregistered
  recipient, a failing protocol query) leaves the MessageLog table as it was.
\<close>

lemma sendMessage_thrown_creates_no_log:
  assumes "sendMessage extname clients dto mediaFile campaignId w = (Inl e, w')"
  shows "messageLogs w' = messageLogs w"
  using assms
  by (auto simp: sendMessage_def Let_def split: option.splits prod.splits if_splits)

lemma sendMessage_unregistered:
  assumes "clients (dto_sessionId dto) = Some sk"
    and "isCanonical (dto_to dto)"
    and "onWhatsApp sk (formatRecipient (dto_to dto)) = Inr (Some False)"
  shows "fst (sendMessage extname clients dto mediaFile campaignId w) =
           Inl (RecipientNotRegistered (dto_to dto)) \<and>
         messageLogs (snd (sendMessage extname clients dto mediaFile campaignId w)) =
           messageLogs w"
  using assms
  by (simp add: sendMessage_def Let_def checkRegistration_def)

text \<open>
  The last branch of \<open>resolveMedia\<close> is never taken where \<open>resolveContent\<close> calls it: an
  attachment is an upload or a non-empty string source.
\<close>

lemma resolveContent_never_NoMediaSource:
  "resolveContent extname dto mediaFile \<noteq> Inl NoMediaSource"
  by (auto simp: resolveContent_def resolveMedia_def hasAttachment_def Let_def
        NoMediaSource_def MediaTypeRequired_def UnsupportedMediaType_def js_def
      split: option.splits)

lemma typingDuration_bounds:
  "1000 \<le> typingDuration msg \<and> typingDuration msg \<le> 4000 \<and>
   (20 \<le> length msg \<and> length msg \<le> 80 \<longrightarrow> typingDuration msg = 50 * int (length msg))"
  by (auto simp: typingDuration_def)

lemma updateMany_idempotent: "updateMany k st (updateMany k st rows) = updateMany k st rows"
  by (cases k) (simp_all add: updateMany_def)

section \<open>Facts about text variation\<close>

lemma lowerASCII_length [simp]: "length (lowerASCII s) = length s"
  by (simp add: lowerASCII_def)

lemma js_length [simp]: "length (js s) = length s"
  by (simp add: js_def)

lemma replaceSalam_length:
  "9 \<le> length g \<Longrightarrow> length t \<le> length (replaceSalam g t)"
proof (induction g t rule: replaceSalam.induct)
  case (1 g)
  show ?case by simp
next
  case (2 g c cs)
  show ?case
  proof (cases "lowerASCII (take 9 (c # cs)) = js ''{{salam}}''")
    case True
    then have "length (lowerASCII (take 9 (c # cs))) = 9"
      by simp
    then have len: "8 \<le> length cs"
      by (simp add: min_def split: if_splits)
    have "length (drop 8 cs) \<le> length (replaceSalam g (drop 8 cs))"
      using 2(1) [OF True 2(3)] .
    then have "length cs - 8 \<le> length (replaceSalam g (drop 8 cs))"
      by simp
    with len 2(3) have "Suc (length cs) \<le> length g + length (replaceSalam g (drop 8 cs))"
      by linarith
    moreover have "replaceSalam g (c # cs) = g @ replaceSalam g (drop 8 cs)"
      using True by simp
    ultimately show ?thesis
      by simp
  next
    case False
    then show ?thesis using 2(2) [OF False 2(3)] by simp
  qed
qed

lemma greetingVariations_long:
  assumes "i < 4"
  shows "9 \<le> length (greetingVariations hour ! i)"
proof -
  have "i = 0 \<or> i = 1 \<or> i = 2 \<or> i = 3"
    using assms by linarith
  then show ?thesis
    by (auto simp: greetingVariations_def timeSpecific_def)
qed

lemma getTimeBasedGreeting_length:
  assumes "isDouble (shd rs)" "0 \<le> shd rs" "shd rs < 1"
  shows "length text \<le> length (fst (getTimeBasedGreeting hour text rs))"
proof -
  have "randomIndex (shd rs) 4 < 4"
    using assms by (intro randomIndex_less) simp_all
  then have "9 \<le> length (greetingVariations hour ! randomIndex (shd rs) 4)"
    by (rule greetingVariations_long)
  then have "length text \<le>
      length (replaceSalam (greetingVariations hour ! randomIndex (shd rs) 4) text)"
    by (rule replaceSalam_length)
  moreover have "length (greetingVariations hour) = 4"
    by (simp add: greetingVariations_def)
  ultimately show ?thesis
    by (simp add: getTimeBasedGreeting_def Let_def)
qed

lemma addInvisibleUnique_suffix:
  assumes "isDouble (shd rs)" "0 \<le> shd rs" "shd rs < 1"
  shows "\<exists>k. 1 \<le> k \<and> k \<le> 10 \<and> addInvisibleUnique text rs = (text @ replicate k ZWSP, stl rs)"
proof -
  have "randomIndex (shd rs) 10 < 10"
    using assms by (intro randomIndex_less) simp_all
  then show ?thesis
    by (intro exI [of _ "randomIndex (shd rs) 10 + 1"]) (simp add: addInvisibleUnique_def)
qed


lemma startsWithWordChar_append:
  assumes "\<forall>d\<in>set z. \<not> isWordChar d"
  shows "startsWithWordChar (t @ z) = startsWithWordChar t"
proof (cases t)
  case Nil
  then show ?thesis
    using assms by (cases z) (simp_all add: startsWithWordChar_def)
next
  case (Cons a list)
  then show ?thesis by (simp add: startsWithWordChar_def)
qed

lemma lowerASCII_set: "set (lowerASCII s) = toLowerChar ` set s"
  by (simp add: lowerASCII_def)

text \<open>Where the word matches, the text is long enough for it.\<close>

lemma match_take_append:
  assumes z: "\<forall>d\<in>set z. toLowerChar d \<notin> set (lowerASCII word)"
  shows "lowerASCII (take (length word) (t @ z)) = lowerASCII word \<longleftrightarrow>
         lowerASCII (take (length word) t) = lowerASCII word"
proof (cases "length word \<le> length t")
  case True
  then show ?thesis by simp
next
  case False
  then have short: "length t < length word" by simp
  have "lowerASCII (take (length word) t) \<noteq> lowerASCII word"
  proof
    assume "lowerASCII (take (length word) t) = lowerASCII word"
    then have "length (lowerASCII (take (length word) t)) = length (lowerASCII word)"
      by simp
    then show False using short by simp
  qed
  moreover have "lowerASCII (take (length word) (t @ z)) \<noteq> lowerASCII word"
  proof
    assume eq: "lowerASCII (take (length word) (t @ z)) = lowerASCII word"
    then have "length (lowerASCII (take (length word) (t @ z))) = length (lowerASCII word)"
      by simp
    then have "take (length word - length t) z \<noteq> []"
      using short by (auto simp: min_def split: if_splits)
    then obtain d where d: "d \<in> set (take (length word - length t) z)"
      by (cases "take (length word - length t) z") auto
    then have "d \<in> set z" by (rule in_set_takeD)
    moreover have "toLowerChar d \<in> set (lowerASCII (take (length word) (t @ z)))"
      using d by (simp add: lowerASCII_set)
    ultimately show False
      using z eq by auto
  qed
  ultimately show ?thesis by simp
qed

text \<open>No word of the kind matches inside a run of such characters.\<close>

lemma slangReplace_no_word:
  assumes "word \<noteq> []"
    and "\<forall>d\<in>set z. toLowerChar d \<notin> set (lowerASCII word)"
  shows "slangReplace word variations p z rs = (z, rs)"
  using assms(2)
proof (induction z arbitrary: p)
  case Nil
  show ?case by simp
next
  case (Cons c cs)
  have "lowerASCII (take (length word) (c # cs)) \<noteq> lowerASCII word"
  proof
    assume eq: "lowerASCII (take (length word) (c # cs)) = lowerASCII word"
    obtain k where k: "length word = Suc k"
      using assms(1) by (cases word) auto
    have "toLowerChar c \<in> set (lowerASCII (take (length word) (c # cs)))"
      by (simp add: k lowerASCII_set)
    then show False
      using eq Cons.prems by auto
  qed
  moreover have "slangReplace word variations (isWordChar c) cs rs = (cs, rs)"
    using Cons.prems by (intro Cons.IH) simp
  ultimately show ?case
    by (simp add: Let_def)
qed

lemma slangReplace_append:
  assumes word: "word \<noteq> []"
    and z1: "\<forall>d\<in>set z. \<not> isWordChar d"
    and z2: "\<forall>d\<in>set z. toLowerChar d \<notin> set (lowerASCII word)"
  shows "slangReplace word variations p (t @ z) rs =
           (fst (slangReplace word variations p t rs) @ z,
            snd (slangReplace word variations p t rs))"
proof (induction "length t" arbitrary: t p rs rule: less_induct)
  case less
  show ?case
  proof (cases t)
    case Nil
    then show ?thesis
      using slangReplace_no_word [OF word z2] by simp
  next
    case (Cons c cs)
    let ?n = "length word"
    let ?m = "take ?n (c # cs)"
    let ?rest = "drop (?n - 1) cs"
    have ih: "slangReplace word variations q (u @ z) rs' =
           (fst (slangReplace word variations q u rs') @ z,
            snd (slangReplace word variations q u rs'))" if "length u \<le> length cs" for u q rs'
      using less [of u q rs'] that Cons by simp
    have m: "lowerASCII (take ?n (c # cs @ z)) = lowerASCII word \<longleftrightarrow>
             lowerASCII ?m = lowerASCII word"
      using match_take_append [OF z2, of "c # cs"] by simp
    show ?thesis
    proof (cases "lowerASCII ?m = lowerASCII word")
      case True
      then have "length (lowerASCII ?m) = ?n"
        by simp
      then have len: "?n \<le> Suc (length cs)"
        by (simp add: min_def split: if_splits)
      then have take: "take ?n (c # cs @ z) = ?m"
        using take_append [of ?n "c # cs" z] by simp
      have drop: "drop (?n - 1) (cs @ z) = ?rest @ z"
        using len by simp
      have b: "startsWithWordChar (?rest @ z) = startsWithWordChar ?rest"
        by (rule startsWithWordChar_append [OF z1])
      show ?thesis
        unfolding Cons append_Cons slangReplace.simps Let_def take drop b
        by (simp add: ih case_prod_beta)
    next
      case False
      then have "lowerASCII (take ?n (c # cs @ z)) \<noteq> lowerASCII word"
        using m by simp
      then show ?thesis
        unfolding Cons append_Cons slangReplace.simps Let_def
        using False by (simp add: ih case_prod_beta)
    qed
  qed
qed


lemma slangLoop_append:
  assumes "\<forall>(word, variations) \<in> set entries.
             word \<noteq> [] \<and> (\<forall>d\<in>set z. toLowerChar d \<notin> set (lowerASCII word))"
    and "\<forall>d\<in>set z. \<not> isWordChar d"
  shows "slangLoop entries (t @ z) rs =
           (fst (slangLoop entries t rs) @ z, snd (slangLoop entries t rs))"
  using assms(1)
proof (induction entries arbitrary: t rs)
  case Nil
  show ?case by simp
next
  case (Cons e entries)
  obtain word variations where e: "e = (word, variations)"
    by (cases e)
  have w: "word \<noteq> []" "\<forall>d\<in>set z. toLowerChar d \<notin> set (lowerASCII word)"
    using Cons.prems e by auto
  have step: "slangReplace word variations False (t @ z) rs =
           (fst (slangReplace word variations False t rs) @ z,
            snd (slangReplace word variations False t rs))"
    by (rule slangReplace_append [OF w(1) assms(2) w(2)])
  have "\<forall>(word, variations) \<in> set entries.
             word \<noteq> [] \<and> (\<forall>d\<in>set z. toLowerChar d \<notin> set (lowerASCII word))"
    using Cons.prems by simp
  from Cons.IH [OF this] show ?case
    by (simp add: e step case_prod_beta)
qed

lemma replacements_no_ZWSP:
  "\<forall>(word, variations) \<in> set replacements.
     word \<noteq> [] \<and> (\<forall>d\<in>set (replicate k ZWSP). toLowerChar d \<notin> set (lowerASCII word))"
  by (simp add: replacements_def js_def lowerASCII_def toLowerChar_def isUpper_def ZWSP_def)

lemma ZWSP_no_wordChar: "\<forall>d\<in>set (replicate k ZWSP). \<not> isWordChar d"
  by (simp add: ZWSP_def isWordChar_def isUpper_def isLower_def isDigit_def)

lemma applyIndonesianSlang_suffix:
  "applyIndonesianSlang (t @ replicate k ZWSP) rs =
     (fst (applyIndonesianSlang t rs) @ replicate k ZWSP, snd (applyIndonesianSlang t rs))"
  unfolding applyIndonesianSlang_def
  by (rule slangLoop_append [OF replacements_no_ZWSP ZWSP_no_wordChar])

lemma processor_suffix_last:
  "processor hour rawText rs =
     (let (txt1, rs1) = getTimeBasedGreeting hour rawText rs;
          (txt2, rs2) = processSpintax txt1 rs1;
          (txt4, rs4) = applyIndonesianSlang txt2 (stl rs2)
      in (txt4 @ replicate (randomIndex (shd rs2) 10 + 1) ZWSP, rs4))"
  by (simp add: processor_def addInvisibleUnique_def Let_def case_prod_beta
      applyIndonesianSlang_suffix del: replicate.simps)


lemma toLowerChar_brace: "toLowerChar c = 0x7B \<longleftrightarrow> c = 0x7B"
proof
  assume a: "toLowerChar c = 0x7B"
  show "c = 0x7B"
  proof (cases "isUpper c")
    case True
    then have "c + 0x20 = 0x7B" using a by (simp add: toLowerChar_def)
    then have "c = 0x7B - 0x20" by (simp add: eq_diff_eq)
    then show ?thesis using True by (simp add: isUpper_def)
  next
    case False
    then show ?thesis using a by (simp add: toLowerChar_def)
  qed
next
  assume "c = 0x7B"
  then show "toLowerChar c = 0x7B" by (simp add: toLowerChar_def isUpper_def)
qed

lemma replaceSalam_no_brace: "0x7B \<notin> set t \<Longrightarrow> replaceSalam g t = t"
proof (induction t)
  case Nil
  show ?case by simp
next
  case (Cons c cs)
  have "lowerASCII (take 9 (c # cs)) \<noteq> js ''{{salam}}''"
  proof
    assume "lowerASCII (take 9 (c # cs)) = js ''{{salam}}''"
    then have "toLowerChar c = 0x7B"
      by (simp add: lowerASCII_def js_def)
    then show False
      using Cons.prems by (simp add: toLowerChar_brace)
  qed
  then show ?case
    using Cons by simp
qed

lemma processSpintax_no_brace: "0x7B \<notin> set t \<Longrightarrow> processSpintax t rs = (t, rs)"
  by (induction t) (simp_all add: Let_def)

lemma slangReplace_absent:
  "\<not> includes_str (lowerASCII t) (lowerASCII word) \<Longrightarrow>
   slangReplace word variations p t rs = (t, rs)"
proof (induction t arbitrary: p)
  case Nil
  show ?case by simp
next
  case (Cons c cs)
  from Cons.prems have a: "\<not> startsWith (lowerASCII (c # cs)) (lowerASCII word)"
    and b: "\<not> includes_str (lowerASCII cs) (lowerASCII word)"
    by (simp_all add: lowerASCII_def)
  have "take (length (lowerASCII word)) (lowerASCII (c # cs)) \<noteq> lowerASCII word"
    using a unfolding startsWith_def .
  moreover have "lowerASCII (take (length word) (c # cs)) =
      take (length (lowerASCII word)) (lowerASCII (c # cs))"
    unfolding lowerASCII_def length_map by (rule take_map [symmetric])
  ultimately have "lowerASCII (take (length word) (c # cs)) \<noteq> lowerASCII word"
    by metis
  then show ?case
    using Cons.IH [OF b] by (simp add: Let_def)
qed

lemma slangLoop_absent:
  "\<not> list_ex (\<lambda>(word, variations). includes_str (lowerASCII t) (lowerASCII word)) entries \<Longrightarrow>
   slangLoop entries t rs = (t, rs)"
proof (induction entries)
  case Nil
  show ?case by simp
next
  case (Cons e entries)
  obtain word variations where e: "e = (word, variations)"
    by (cases e)
  show ?case
    using Cons by (simp add: e slangReplace_absent)
qed

lemma stl_sset_subset: "sset (stl rs) \<subseteq> sset rs"
  by (auto intro: stl_sset)

lemma processSpintax_sset: "sset (snd (processSpintax t rs)) \<subseteq> sset rs"
proof (induction t rs rule: processSpintax.induct)
  case (1 rs)
  show ?case by simp
next
  case (2 c cs rs)
  let ?rest = "dropWhile (\<lambda>x. \<not> isBrace x) cs"
  show ?case
  proof (cases "c = 0x7B \<and> takeWhile (\<lambda>x. \<not> isBrace x) cs \<noteq> [] \<and> take 1 ?rest = [0x7D]")
    case True
    have "sset (snd (processSpintax (drop 1 ?rest) (stl rs))) \<subseteq> sset (stl rs)"
      using 2(1) [OF refl refl True refl refl] .
    then show ?thesis
      using True stl_sset_subset [of rs] by (auto simp: Let_def case_prod_beta)
  next
    case False
    have "sset (snd (processSpintax cs rs)) \<subseteq> sset rs"
      using 2(2) [OF refl refl False] .
    then show ?thesis
      using False by (auto simp: Let_def case_prod_beta)
  qed
qed

lemma unitInterval_shd:
  "unitInterval rs \<Longrightarrow> isDouble (shd rs) \<and> 0 \<le> shd rs \<and> shd rs < 1"
  by (simp add: unitInterval_def shd_sset)

lemma unitInterval_after_spintax:
  assumes "unitInterval rs"
  shows "unitInterval (snd (processSpintax t (snd (getTimeBasedGreeting hour text rs))))"
proof -
  have "sset (snd (processSpintax t (stl rs))) \<subseteq> sset rs"
    using processSpintax_sset [of t "stl rs"] stl_sset_subset [of rs] by blast
  then show ?thesis
    using assms by (auto simp: unitInterval_def getTimeBasedGreeting_def Let_def)
qed

lemmas pipe_defs = getTimeBasedGreeting_def greetingVariations_def timeSpecific_def
  addInvisibleUnique_def applyIndonesianSlang_def replacements_def sample_indices
  js_def lowerASCII_def toLowerChar_def isUpper_def isBrace_def Let_def ZWSP_def
  isWordChar_def isLower_def isDigit_def startsWithWordChar_def toUpperChar_def
  upperASCII_def

lemma plain_halo: "0x7B \<notin> set (js ''halo'') \<and> \<not> hasSlangWord (js ''halo'')"
  by (simp add: hasSlangWord_def replacements_def js_def lowerASCII_def toLowerChar_def
      isUpper_def startsWith_def)

section \<open>Facts about auto-reply\<close>

lemma foldsASCII_lowerASCII: "foldsASCII lowerASCII"
  by (simp add: foldsASCII_def)

lemma hello_not_triggered:
  assumes "foldsASCII toLowerCase"
  shows "\<not> isMatch toLowerCase [js ''halo'', js ''hai''] (js ''hello'')"
proof -
  have "isASCII (js ''hello'')" "isASCII (js ''halo'')" "isASCII (js ''hai'')"
    by (simp_all add: isASCII_def js_def)
  then have "toLowerCase (js ''hello'') = lowerASCII (js ''hello'')"
    "toLowerCase (js ''halo'') = lowerASCII (js ''halo'')"
    "toLowerCase (js ''hai'') = lowerASCII (js ''hai'')"
    using assms by (simp_all add: foldsASCII_def)
  then show ?thesis
    by (simp add: isMatch_def js_def lowerASCII_def toLowerChar_def isUpper_def startsWith_def)
qed

lemmas reply_defs = campaignWorld_def emptyWorld_def demoConfig_def inbound_def textBody_def
  truthy_def lastCampaignOf_def isMatch_def exactRule_def partialRule_def js_def
  lowerASCII_def toLowerChar_def isUpper_def startsWith_def

text \<open>
  The effects of a send that passes the checks, in their order.
\<close>

lemma sendMessage_accepted_trace:
  assumes "clients (dto_sessionId dto) = Some sk"
    and "checkRegistration sk (dto_to dto) = None"
    and "sendPresenceUpdate sk (formatRecipient (dto_to dto)) = None"
  shows "\<exists>st. trace (snd (sendMessage extname clients dto mediaFile campaignId w)) =
           trace w @
           (if isCanonical (dto_to dto) then [RegistrationQuery (formatRecipient (dto_to dto))]
            else []) @
           [Composing (formatRecipient (dto_to dto)),
            Sleep (Finite (of_int (typingDuration (dto_message dto)))),
            LogCreated (length (messageLogs w))] @
           (case resolveContent extname dto mediaFile of
              Inl e \<Rightarrow> []
            | Inr c \<Rightarrow> [Transmit (formatRecipient (dto_to dto)) c]) @
           [LogUpdated (length (messageLogs w)) st]"
proof -
  let ?f = "formatRecipient (dto_to dto)"
  let ?i = "length (messageLogs w)"
  let ?w4 = "emit ((if isCanonical (dto_to dto) then [RegistrationQuery ?f] else []) @
                   [Composing ?f, Sleep (Finite (of_int (typingDuration (dto_message dto)))),
                    LogCreated ?i])
                 (w\<lparr>messageLogs := messageLogs w @ [pendingLog dto mediaFile campaignId w]\<rparr>)"
  obtain r w5 where t: "tryTransmit extname sk ?f dto mediaFile ?i ?w4 = (r, w5)"
    by (cases "tryTransmit extname sk ?f dto mediaFile ?i ?w4")
  have run: "trace (snd (sendMessage extname clients dto mediaFile campaignId w)) =
      (case r of None \<Rightarrow> trace w5 | Some e \<Rightarrow> trace w5 @ [LogUpdated ?i FAILED])"
    using t
    by (simp add: sendMessage_accepted [where clients = clients and dto = dto and sk = sk,
          OF assms] Let_def split: option.split)
  show ?thesis
  proof (cases r)
    case None
    then obtain c waId where c: "resolveContent extname dto mediaFile = Inr c"
      and m: "markSent ?i waId (emit [Transmit ?f c] ?w4) = Inr w5"
      using t by (auto simp: tryTransmit_cases split: sum.splits)
    show ?thesis
      using run None c markSent_trace [OF m] by (intro exI [of _ SENT]) simp
  next
    case (Some e)
    then have "trace w5 = trace ?w4 @
        (case resolveContent extname dto mediaFile of Inl e \<Rightarrow> [] | Inr c \<Rightarrow> [Transmit ?f c])"
      using t by (auto simp: tryTransmit_cases split: sum.splits)
    then show ?thesis
      using run Some by (intro exI [of _ FAILED]) simp
  qed
qed

text \<open>
  What a reply does once its recipient passes the checks of \<open>sendMessage\<close>: the delay, the
  typing, the row and the transmit call with the text of the reply, in this order.
\<close>

lemma sendReply_trace:
  assumes "txt \<noteq> []"
    and "clients sessionId = Some sk"
    and "checkRegistration sk jid = None"
    and "sendPresenceUpdate sk (formatRecipient jid) = None"
  shows "\<exists>st. trace (fst (sendReply extname clients sessionId jid delay txt w rs)) =
           trace w @ [Sleep (numMul (fst (getRandomDelay delay rs)) (Finite 1000))] @
           (if isCanonical jid then [RegistrationQuery (formatRecipient jid)] else []) @
           [Composing (formatRecipient jid), Sleep (Finite (of_int (typingDuration txt))),
            LogCreated (length (messageLogs w)), Transmit (formatRecipient jid) (Text txt),
            LogUpdated (length (messageLogs w)) st]"
proof -
  define dto where "dto = \<lparr>dto_sessionId = sessionId, dto_to = jid, dto_message = txt,
                dto_file = None, dto_mediaType = None, dto_fileName = None\<rparr>"
  define w1 where "w1 = emit [Sleep (numMul (fst (getRandomDelay delay rs)) (Finite 1000))] w"
  have sel: "dto_sessionId dto = sessionId" "dto_to dto = jid" "dto_message dto = txt"
    by (simp_all add: dto_def)
  have content: "resolveContent extname dto None = Inr (Text txt)"
    by (simp add: resolveContent_def hasAttachment_def truthy_def dto_def)
  have "\<exists>st. trace (snd (sendMessage extname clients dto None None w1)) =
           trace w1 @
           (if isCanonical (dto_to dto) then [RegistrationQuery (formatRecipient (dto_to dto))]
            else []) @
           [Composing (formatRecipient (dto_to dto)),
            Sleep (Finite (of_int (typingDuration (dto_message dto)))),
            LogCreated (length (messageLogs w1))] @
           (case resolveContent extname dto None of
              Inl e \<Rightarrow> []
            | Inr c \<Rightarrow> [Transmit (formatRecipient (dto_to dto)) c]) @
           [LogUpdated (length (messageLogs w1)) st]"
    using assms(2-4) by (intro sendMessage_accepted_trace [where sk = sk]) (simp_all add: sel)
  then obtain st where "trace (snd (sendMessage extname clients dto None None w1)) =
      trace w @ [Sleep (numMul (fst (getRandomDelay delay rs)) (Finite 1000))] @
      (if isCanonical jid then [RegistrationQuery (formatRecipient jid)] else []) @
      [Composing (formatRecipient jid), Sleep (Finite (of_int (typingDuration txt))),
       LogCreated (length (messageLogs w)), Transmit (formatRecipient jid) (Text txt),
       LogUpdated (length (messageLogs w)) st]"
    by (auto simp: sel content w1_def)
  moreover have "fst (sendReply extname clients sessionId jid delay txt w rs) =
      snd (sendMessage extname clients dto None None w1)"
    using assms(1) by (simp add: sendReply_def Let_def case_prod_beta dto_def w1_def)
  ultimately show ?thesis
    by auto
qed

section \<open>Delay-range parsing\<close>






section \<open>Status tracking\<close>

text \<open>
  C9. Applying the same acknowledgment for one message id a second time changes nothing:
  the state after two applications is the state after one, for a single update and for the
  handler run on the update twice. The status written depends on the acknowledgment kind
  alone: SERVER_ACK gives SENT, DELIVERY_ACK gives DELIVERED, READ and PLAYED give READ,
  and the remaining kind that is written gives PENDING.
\<close>

theorem applyUpdate_idempotent:
  "applyUpdate u (applyUpdate u w) = applyUpdate u w \<and>
   onMessagesUpdate [u, u] w = onMessagesUpdate [u] w \<and>
   statusString SERVER_ACK = SENT \<and> statusString DELIVERY_ACK = DELIVERED \<and>
   statusString ACK_READ = READ \<and> statusString PLAYED = READ \<and>
   statusString ACK_PENDING = PENDING"
  by (simp add: applyUpdate_def updateMany_idempotent split: option.split)

theorem applyUpdate_idempotent_witness:
  "applyUpdate deliveryAck (applyUpdate deliveryAck (emptyWorld\<lparr>messageLogs := [sentLog]\<rparr>)) =
     applyUpdate deliveryAck (emptyWorld\<lparr>messageLogs := [sentLog]\<rparr>) \<and>
   map log_status
     (messageLogs (applyUpdate deliveryAck (emptyWorld\<lparr>messageLogs := [sentLog]\<rparr>))) =
     [DELIVERED]"
  using applyUpdate_idempotent [of deliveryAck "emptyWorld\<lparr>messageLogs := [sentLog]\<rparr>"]
  by (simp add: applyUpdate_def updateMany_def deliveryAck_def sentLog_def emptyWorld_def)

section \<open>Sending one message\<close>

text \<open>
  C10. Whenever \<open>sendMessage\<close> returns a success, the row in the payload is the row as it
  was created: its status is PENDING and it has no protocol message id. The stored row,
  the last of the table, is that row with status SENT and the message id the protocol
  client returned.
\<close>

theorem sendMessage_success_payload:
  assumes "sendMessage extname clients dto mediaFile campaignId w = (Inr (Success i row), w')"
  shows "log_status row = PENDING \<and> log_waMessageId row = None \<and>
         i = length (messageLogs w) \<and>
         (\<exists>sk c waId.
            clients (dto_sessionId dto) = Some sk \<and>
            resolveContent extname dto mediaFile = Inr c \<and>
            sock_sendMessage sk (formatRecipient (dto_to dto)) c = Inr waId \<and>
            messageLogs w' =
              messageLogs w @ [row\<lparr>log_status := SENT, log_waMessageId := waId\<rparr>])"
proof -
  obtain sk where sk: "clients (dto_sessionId dto) = Some sk"
    using assms by (cases "clients (dto_sessionId dto)") (auto simp: sendMessage_def)
  have reg: "checkRegistration sk (dto_to dto) = None"
    using assms sk
    by (cases "checkRegistration sk (dto_to dto)") (auto simp: sendMessage_def Let_def)
  have pres: "sendPresenceUpdate sk (formatRecipient (dto_to dto)) = None"
    using assms sk reg
    by (cases "sendPresenceUpdate sk (formatRecipient (dto_to dto))")
      (auto simp: sendMessage_def Let_def)
  let ?f = "formatRecipient (dto_to dto)"
  let ?row = "pendingLog dto mediaFile campaignId w"
  let ?w4 = "emit ((if isCanonical (dto_to dto) then [RegistrationQuery ?f] else []) @
                   [Composing ?f, Sleep (Finite (of_int (typingDuration (dto_message dto)))),
                    LogCreated (length (messageLogs w))])
                 (w\<lparr>messageLogs := messageLogs w @ [?row]\<rparr>)"
  from assms
    sendMessage_accepted [where clients = clients and dto = dto and sk = sk,
      OF sk reg pres, of extname mediaFile campaignId w]
  have run: "tryTransmit extname sk ?f dto mediaFile (length (messageLogs w)) ?w4 = (None, w')"
    and i: "i = length (messageLogs w)" and row: "row = ?row"
    by (auto simp: Let_def split: prod.splits option.splits)
  from run obtain c waId where c: "resolveContent extname dto mediaFile = Inr c"
    and t: "sock_sendMessage sk ?f c = Inr waId"
    and m: "markSent (length (messageLogs w)) waId (emit [Transmit ?f c] ?w4) = Inr w'"
    by (auto simp: tryTransmit_cases split: sum.splits)
  have "messageLogs w' =
      messageLogs w @ [?row\<lparr>log_status := SENT, log_waMessageId := waId\<rparr>]"
    using markSent_logs [OF m] by (simp add: pendingLog_def)
  moreover have "log_status ?row = PENDING" "log_waMessageId ?row = None"
    by (simp_all add: pendingLog_def)
  ultimately show ?thesis
    using sk c t i row by auto
qed

theorem sendMessage_success_payload_witness:
  "sendMessage (\<lambda>_. []) (demoClients (demoSock True (Inr (Some (js ''3EB0'')))))
       (demoDto None None) None None emptyWorld =
     (Inr (Success 0 (pendingLog (demoDto None None) None None emptyWorld)),
      snd (sendMessage (\<lambda>_. []) (demoClients (demoSock True (Inr (Some (js ''3EB0'')))))
             (demoDto None None) None None emptyWorld)) \<and>
   log_status (pendingLog (demoDto None None) None None emptyWorld) = PENDING \<and>
   log_waMessageId (pendingLog (demoDto None None) None None emptyWorld) = None \<and>
   map log_status
     (messageLogs
       (snd (sendMessage (\<lambda>_. []) (demoClients (demoSock True (Inr (Some (js ''3EB0'')))))
               (demoDto None None) None None emptyWorld))) = [SENT] \<and>
   map log_waMessageId
     (messageLogs
       (snd (sendMessage (\<lambda>_. []) (demoClients (demoSock True (Inr (Some (js ''3EB0'')))))
               (demoDto None None) None None emptyWorld))) = [Some (js ''3EB0'')]"
proof -
  let ?run = "sendMessage (\<lambda>_. []) (demoClients (demoSock True (Inr (Some (js ''3EB0'')))))
       (demoDto None None) None None emptyWorld"
  let ?row = "pendingLog (demoDto None None) None None emptyWorld"
  have "fst ?run = Inr (Success 0 ?row)"
    by (simp add: sendMessage_def Let_def eval_defs)
  then have run: "?run = (Inr (Success 0 ?row), snd ?run)"
    by (simp add: prod_eq_iff)
  from sendMessage_success_payload [OF run] obtain sk c waId
    where st: "log_status ?row = PENDING" "log_waMessageId ?row = None"
      and sk: "demoClients (demoSock True (Inr (Some (js ''3EB0''))))
                 (dto_sessionId (demoDto None None)) = Some sk"
      and t: "sock_sendMessage sk (formatRecipient (dto_to (demoDto None None))) c = Inr waId"
      and logs: "messageLogs (snd ?run) =
                   messageLogs emptyWorld @ [?row\<lparr>log_status := SENT, log_waMessageId := waId\<rparr>]"
    by blast
  have "sk = demoSock True (Inr (Some (js ''3EB0'')))"
    using sk by (simp add: demoClients_def demoDto_def)
  then have waId: "waId = Some (js ''3EB0'')"
    using t by (simp add: demoSock_def)
  show ?thesis
  proof (intro conjI)
    show "?run = (Inr (Success 0 ?row), snd ?run)" by (rule run)
    show "log_status ?row = PENDING" by (rule st)
    show "log_waMessageId ?row = None" by (rule st)
    show "map log_status (messageLogs (snd ?run)) = [SENT]"
      unfolding logs by (simp add: emptyWorld_def)
    show "map log_waMessageId (messageLogs (snd ?run)) = [Some (js ''3EB0'')]"
      unfolding logs waId by (simp add: emptyWorld_def)
  qed
qed


text \<open>
  C5. When the session is live, the recipient passes the registration check, the content
  resolves and the transmit call of the protocol client throws, \<open>sendMessage\<close> throws
  nothing: it returns the failure object with the exception's message, and the table has
  grown by exactly one row, the row of this attempt, with status FAILED.
\<close>

theorem sendMessage_transmit_failure:
  assumes "clients (dto_sessionId dto) = Some sk"
    and "checkRegistration sk (dto_to dto) = None"
    and "sendPresenceUpdate sk (formatRecipient (dto_to dto)) = None"
    and "resolveContent extname dto mediaFile = Inr c"
    and "sock_sendMessage sk (formatRecipient (dto_to dto)) c = Inl e"
  shows "fst (sendMessage extname clients dto mediaFile campaignId w) =
           Inr (Failed (message e)) \<and>
         messageLogs (snd (sendMessage extname clients dto mediaFile campaignId w)) =
           messageLogs w @ [(pendingLog dto mediaFile campaignId w)\<lparr>log_status := FAILED\<rparr>]"
  using assms(4,5)
  by (simp add: sendMessage_accepted [where clients = clients and dto = dto and sk = sk,
        OF assms(1-3)] Let_def tryTransmit_cases)

theorem sendMessage_transmit_failure_witness:
  "fst (sendMessage (\<lambda>_. [])
          (demoClients (demoSock True (Inl (Error (js ''Connection Closed'')))))
          (demoDto None None) None None emptyWorld) =
     Inr (Failed (js ''Connection Closed'')) \<and>
   map log_status
     (messageLogs
       (snd (sendMessage (\<lambda>_. [])
               (demoClients (demoSock True (Inl (Error (js ''Connection Closed'')))))
               (demoDto None None) None None emptyWorld))) = [FAILED]"
proof -
  let ?sk = "demoSock True (Inl (Error (js ''Connection Closed'')))"
  have 1: "demoClients ?sk (dto_sessionId (demoDto None None)) = Some ?sk"
    by (simp add: demoClients_def demoDto_def)
  have 2: "checkRegistration ?sk (dto_to (demoDto None None)) = None"
    by (simp add: eval_defs)
  have 3: "sendPresenceUpdate ?sk (formatRecipient (dto_to (demoDto None None))) = None"
    by (simp add: demoSock_def)
  have 4: "resolveContent (\<lambda>_. []) (demoDto None None) None = Inr (Text (js ''halo''))"
    by (simp add: eval_defs)
  have 5: "sock_sendMessage ?sk (formatRecipient (dto_to (demoDto None None)))
             (Text (js ''halo'')) = Inl (Error (js ''Connection Closed''))"
    by (simp add: demoSock_def)
  from sendMessage_transmit_failure [where clients = "demoClients ?sk" and sk = ?sk
      and dto = "demoDto None None", OF 1 2 3 4 5, of None emptyWorld]
  show ?thesis
    by (simp add: emptyWorld_def)
qed

text \<open>
  C3, as the code has it. In every execution that passes validation, the typing delay of
  \<open>min (max (50 * length) 1000) 4000\<close> milliseconds comes after the registration check and
  the typing announcement and before the PENDING row is created; the row is created before
  the transmit call. The new effects are, in order: the registration query (for a
  canonical recipient), the typing announcement, the delay, the creation of the row, the
  transmit call (when the content resolves) and one update of the row.
\<close>

theorem sendMessage_delay_precedes_log:
  assumes "clients (dto_sessionId dto) = Some sk"
    and "checkRegistration sk (dto_to dto) = None"
    and "sendPresenceUpdate sk (formatRecipient (dto_to dto)) = None"
  shows "(\<exists>st. trace (snd (sendMessage extname clients dto mediaFile campaignId w)) =
           trace w @
           (if isCanonical (dto_to dto) then [RegistrationQuery (formatRecipient (dto_to dto))]
            else []) @
           [Composing (formatRecipient (dto_to dto)),
            Sleep (Finite (of_int (typingDuration (dto_message dto)))),
            LogCreated (length (messageLogs w))] @
           (case resolveContent extname dto mediaFile of
              Inl e \<Rightarrow> []
            | Inr c \<Rightarrow> [Transmit (formatRecipient (dto_to dto)) c]) @
           [LogUpdated (length (messageLogs w)) st]) \<and>
         1000 \<le> typingDuration (dto_message dto) \<and> typingDuration (dto_message dto) \<le> 4000 \<and>
         (20 \<le> length (dto_message dto) \<and> length (dto_message dto) \<le> 80 \<longrightarrow>
            typingDuration (dto_message dto) = 50 * int (length (dto_message dto)))"
proof -
  let ?f = "formatRecipient (dto_to dto)"
  let ?i = "length (messageLogs w)"
  let ?w4 = "emit ((if isCanonical (dto_to dto) then [RegistrationQuery ?f] else []) @
                   [Composing ?f, Sleep (Finite (of_int (typingDuration (dto_message dto)))), LogCreated ?i])
                 (w\<lparr>messageLogs := messageLogs w @ [pendingLog dto mediaFile campaignId w]\<rparr>)"
  obtain r w5 where t: "tryTransmit extname sk ?f dto mediaFile ?i ?w4 = (r, w5)"
    by (cases "tryTransmit extname sk ?f dto mediaFile ?i ?w4")
  have run: "trace (snd (sendMessage extname clients dto mediaFile campaignId w)) =
      (case r of None \<Rightarrow> trace w5 | Some e \<Rightarrow> trace w5 @ [LogUpdated ?i FAILED])"
    using t
    by (simp add: sendMessage_accepted [where clients = clients and dto = dto and sk = sk,
          OF assms] Let_def split: option.split)
  have "\<exists>st. trace (snd (sendMessage extname clients dto mediaFile campaignId w)) =
           trace w @
           (if isCanonical (dto_to dto) then [RegistrationQuery ?f] else []) @
           [Composing ?f, Sleep (Finite (of_int (typingDuration (dto_message dto)))), LogCreated ?i] @
           (case resolveContent extname dto mediaFile of
              Inl e \<Rightarrow> []
            | Inr c \<Rightarrow> [Transmit ?f c]) @
           [LogUpdated ?i st]"
  proof (cases r)
    case None
    then obtain c waId where c: "resolveContent extname dto mediaFile = Inr c"
      and m: "markSent ?i waId (emit [Transmit ?f c] ?w4) = Inr w5"
      using t by (auto simp: tryTransmit_cases split: sum.splits)
    show ?thesis
      using run None c markSent_trace [OF m] by (intro exI [of _ SENT]) simp
  next
    case (Some e)
    then have "trace w5 = trace ?w4 @
        (case resolveContent extname dto mediaFile of Inl e \<Rightarrow> [] | Inr c \<Rightarrow> [Transmit ?f c])"
      using t by (auto simp: tryTransmit_cases split: sum.splits)
    then show ?thesis
      using run Some by (intro exI [of _ FAILED]) simp
  qed
  then show ?thesis
    using typingDuration_bounds [of "dto_message dto"] by blast
qed

theorem sendMessage_delay_precedes_log_witness:
  "\<exists>st. trace (snd (sendMessage (\<lambda>_. [])
                      (demoClients (demoSock True (Inr (Some (js ''3EB0'')))))
                      (demoDto None None) None None emptyWorld)) =
     [RegistrationQuery (js ''0812345@s.whatsapp.net''),
      Composing (js ''0812345@s.whatsapp.net''), Sleep (Finite 1000), LogCreated 0,
      Transmit (js ''0812345@s.whatsapp.net'') (Text (js ''halo'')), LogUpdated 0 st]"
proof -
  let ?sk = "demoSock True (Inr (Some (js ''3EB0'')))"
  have 1: "demoClients ?sk (dto_sessionId (demoDto None None)) = Some ?sk"
    by (simp add: demoClients_def demoDto_def)
  have 2: "checkRegistration ?sk (dto_to (demoDto None None)) = None"
    by (simp add: eval_defs)
  have 3: "sendPresenceUpdate ?sk (formatRecipient (dto_to (demoDto None None))) = None"
    by (simp add: demoSock_def)
  have 4: "resolveContent (\<lambda>_. []) (demoDto None None) None = Inr (Text (js ''halo''))"
    by (simp add: eval_defs)
  have 5: "formatRecipient (dto_to (demoDto None None)) = js ''0812345@s.whatsapp.net''"
    by (simp add: eval_defs)
  have 6: "isCanonical (dto_to (demoDto None None))"
    by (simp add: eval_defs)
  have 7: "typingDuration (dto_message (demoDto None None)) = 1000"
    by (simp add: eval_defs)
  from sendMessage_delay_precedes_log [where clients = "demoClients ?sk" and sk = ?sk
      and dto = "demoDto None None", OF 1 2 3, of "\<lambda>_. []" None None emptyWorld]
  show ?thesis
    unfolding 4 5 7 by (simp add: 6 emptyWorld_def)
qed

text \<open>
  A run that passes validation and transmits: the delay is over before the row is
  created, and no delay follows the creation of the row.
\<close>

theorem sendMessage_delay_after_log_counterexample:
  "trace (snd (sendMessage (\<lambda>_. [])
                 (demoClients (demoSock True (Inr (Some (js ''3EB0'')))))
                 (demoDto None None) None None emptyWorld)) =
     [RegistrationQuery (js ''0812345@s.whatsapp.net''),
      Composing (js ''0812345@s.whatsapp.net''), Sleep (Finite 1000), LogCreated 0,
      Transmit (js ''0812345@s.whatsapp.net'') (Text (js ''halo'')), LogUpdated 0 SENT] \<and>
   \<not> precedes (LogCreated 0) (Sleep (Finite 1000))
       (trace (snd (sendMessage (\<lambda>_. [])
                 (demoClients (demoSock True (Inr (Some (js ''3EB0'')))))
                 (demoDto None None) None None emptyWorld))) \<and>
   precedes (Sleep (Finite 1000)) (LogCreated 0)
       (trace (snd (sendMessage (\<lambda>_. [])
                 (demoClients (demoSock True (Inr (Some (js ''3EB0'')))))
                 (demoDto None None) None None emptyWorld)))"
proof -
  have "trace (snd (sendMessage (\<lambda>_. [])
                 (demoClients (demoSock True (Inr (Some (js ''3EB0'')))))
                 (demoDto None None) None None emptyWorld)) =
     [RegistrationQuery (js ''0812345@s.whatsapp.net''),
      Composing (js ''0812345@s.whatsapp.net''), Sleep (Finite 1000), LogCreated 0,
      Transmit (js ''0812345@s.whatsapp.net'') (Text (js ''halo'')), LogUpdated 0 SENT]"
    by (simp add: sendMessage_def Let_def eval_defs)
  then show ?thesis
    by (simp add: precedes_def)
qed

text \<open>
  C1, as the code has it. Every exception that \<open>sendMessage\<close> throws to its caller is
  thrown before a MessageLog row is created: the table is as it was. Without a live
  handle that exception is the session-not-found one. For a canonical recipient that the
  protocol client reports as unregistered (no entry, or an entry that does not exist) it
  is the recipient-not-registered one, and no row is left.
\<close>

theorem sendMessage_rejected_before_log:
  "(sendMessage extname clients dto mediaFile campaignId w = (Inl e, w') \<longrightarrow>
      messageLogs w' = messageLogs w) \<and>
   (clients (dto_sessionId dto) = None \<longrightarrow>
      sendMessage extname clients dto mediaFile campaignId w = (Inl SessionNotFound, w)) \<and>
   (clients (dto_sessionId dto) = Some sk \<and> isCanonical (dto_to dto) \<and>
    (onWhatsApp sk (formatRecipient (dto_to dto)) = Inr None \<or>
     onWhatsApp sk (formatRecipient (dto_to dto)) = Inr (Some False)) \<longrightarrow>
      fst (sendMessage extname clients dto mediaFile campaignId w) =
        Inl (RecipientNotRegistered (dto_to dto)) \<and>
      messageLogs (snd (sendMessage extname clients dto mediaFile campaignId w)) =
        messageLogs w)"
proof (intro conjI impI)
  assume "sendMessage extname clients dto mediaFile campaignId w = (Inl e, w')"
  then show "messageLogs w' = messageLogs w"
    by (rule sendMessage_thrown_creates_no_log)
next
  assume "clients (dto_sessionId dto) = None"
  then show "sendMessage extname clients dto mediaFile campaignId w = (Inl SessionNotFound, w)"
    by (simp add: sendMessage_def)
next
  assume a: "clients (dto_sessionId dto) = Some sk \<and> isCanonical (dto_to dto) \<and>
    (onWhatsApp sk (formatRecipient (dto_to dto)) = Inr None \<or>
     onWhatsApp sk (formatRecipient (dto_to dto)) = Inr (Some False))"
  then have "checkRegistration sk (dto_to dto) = Some (RecipientNotRegistered (dto_to dto))"
    by (auto simp: checkRegistration_def)
  then show "fst (sendMessage extname clients dto mediaFile campaignId w) =
      Inl (RecipientNotRegistered (dto_to dto))"
    and "messageLogs (snd (sendMessage extname clients dto mediaFile campaignId w)) =
      messageLogs w"
    using a by (simp_all add: sendMessage_def Let_def)
qed

theorem sendMessage_rejected_before_log_witness:
  "fst (sendMessage (\<lambda>_. []) (demoClients (demoSock False (Inr None))) (demoDto None None)
          None None emptyWorld) =
     Inl (RecipientNotRegistered (js ''0812-345'')) \<and>
   messageLogs
     (snd (sendMessage (\<lambda>_. []) (demoClients (demoSock False (Inr None))) (demoDto None None)
             None None emptyWorld)) = [] \<and>
   sendMessage (\<lambda>_. []) Map.empty (demoDto None None) None None emptyWorld =
     (Inl SessionNotFound, emptyWorld)"
proof -
  let ?sk = "demoSock False (Inr None)"
  have 1: "demoClients ?sk (dto_sessionId (demoDto None None)) = Some ?sk \<and>
      isCanonical (dto_to (demoDto None None)) \<and>
      (onWhatsApp ?sk (formatRecipient (dto_to (demoDto None None))) = Inr None \<or>
       onWhatsApp ?sk (formatRecipient (dto_to (demoDto None None))) = Inr (Some False))"
    by (simp add: eval_defs)
  have 2: "Map.empty (dto_sessionId (demoDto None None)) = (None :: sock option)"
    by simp
  have 3: "dto_to (demoDto None None) = js ''0812-345''"
    by (simp add: demoDto_def)
  from
    sendMessage_rejected_before_log [where clients = "demoClients ?sk" and sk = ?sk
      and dto = "demoDto None None" and extname = "\<lambda>_. []" and mediaFile = None
      and campaignId = None and w = emptyWorld]
    sendMessage_rejected_before_log [where clients = Map.empty and sk = ?sk
      and dto = "demoDto None None" and extname = "\<lambda>_. []" and mediaFile = None
      and campaignId = None and w = emptyWorld]
    1 2
  show ?thesis
    unfolding 3 by (simp add: emptyWorld_def)
qed

text \<open>
  A request with a file source and no media type, to a registered recipient on a live
  session: the media-type check runs inside the \<^verbatim>\<open>try\<close> block, after the row was
  created. Nothing is thrown to the caller, the failure object is returned, and the table
  that was empty holds one row, with status FAILED.
\<close>

theorem sendMessage_missing_mediaType_counterexample:
  "messageLogs emptyWorld = [] \<and>
   fst (sendMessage (\<lambda>_. [])
          (demoClients (demoSock True (Inr (Some (js ''3EB0'')))))
          (demoDto (Some (js ''http://a/b.png'')) None) None None emptyWorld) =
     Inr (Failed (message MediaTypeRequired)) \<and>
   message MediaTypeRequired = js ''mediaType wajib diisi jika mengirim file'' \<and>
   map log_status
     (messageLogs
       (snd (sendMessage (\<lambda>_. [])
               (demoClients (demoSock True (Inr (Some (js ''3EB0'')))))
               (demoDto (Some (js ''http://a/b.png'')) None) None None emptyWorld))) =
     [FAILED]"
  by (simp add: sendMessage_def Let_def eval_defs)

section \<open>Bulk sending\<close>

text \<open>
  C7. Without a live handle for the session, \<open>sendBulkMessage\<close> throws the
  session-not-found exception and the state is unchanged: no Campaign row, no MessageLog
  row. With a live handle it adds exactly one Campaign row, starts the background task
  without running it (no MessageLog row has been written when it returns), and returns
  the id of that campaign, the status PROCESSING and the number of recipients as total.
\<close>

theorem sendBulkMessage_starts_campaign:
  "(clients (bulk_sessionId dto) = None \<longrightarrow>
      sendBulkMessage clients dto w = (Inl SessionNotFound, w)) \<and>
   (clients (bulk_sessionId dto) \<noteq> None \<longrightarrow>
      (\<exists>p w'. sendBulkMessage clients dto w = (Inr p, w') \<and>
         campaigns w' = campaigns w @ [\<lparr>campaign_title = bulk_title dto\<rparr>] \<and>
         messageLogs w' = messageLogs w \<and>
         background w' =
           background w @
           [BulkTask (bulk_sessionId dto) (bulk_data dto) (bulk_delay dto)
              (length (campaigns w))] \<and>
         started_campaignId p = length (campaigns w) \<and>
         started_status p = js ''PROCESSING'' \<and>
         started_total p = length (bulk_data dto)))"
  by (auto simp: sendBulkMessage_def Let_def)

theorem sendBulkMessage_starts_campaign_witness:
  "sendBulkMessage (demoClients (demoSock True (Inr None))) (demoBulk (js ''s2'')) emptyWorld =
     (Inl SessionNotFound, emptyWorld) \<and>
   (\<exists>p w'. sendBulkMessage (demoClients (demoSock True (Inr None))) (demoBulk (js ''s1''))
              emptyWorld = (Inr p, w') \<and>
      campaigns w' = [\<lparr>campaign_title = js ''Promo''\<rparr>] \<and> messageLogs w' = [] \<and>
      started_campaignId p = 0 \<and> started_status p = js ''PROCESSING'' \<and>
      started_total p = 2)"
proof -
  have none: "demoClients (demoSock True (Inr None)) (bulk_sessionId (demoBulk (js ''s2''))) = None"
    by (simp add: demoClients_def demoBulk_def js_def)
  have some: "demoClients (demoSock True (Inr None)) (bulk_sessionId (demoBulk (js ''s1''))) \<noteq> None"
    by (simp add: demoClients_def demoBulk_def)
  from sendBulkMessage_starts_campaign
      [of "demoClients (demoSock True (Inr None))" "demoBulk (js ''s2'')" emptyWorld] none
  have a: "sendBulkMessage (demoClients (demoSock True (Inr None))) (demoBulk (js ''s2''))
             emptyWorld = (Inl SessionNotFound, emptyWorld)"
    by blast
  from sendBulkMessage_starts_campaign
      [of "demoClients (demoSock True (Inr None))" "demoBulk (js ''s1'')" emptyWorld] some
  obtain p w' where b:
    "sendBulkMessage (demoClients (demoSock True (Inr None))) (demoBulk (js ''s1''))
       emptyWorld = (Inr p, w')"
    "campaigns w' = campaigns emptyWorld @ [\<lparr>campaign_title = bulk_title (demoBulk (js ''s1''))\<rparr>]"
    "messageLogs w' = messageLogs emptyWorld"
    "started_campaignId p = length (campaigns emptyWorld)"
    "started_status p = js ''PROCESSING''"
    "started_total p = length (bulk_data (demoBulk (js ''s1'')))"
    by blast
  have "campaigns w' = [\<lparr>campaign_title = js ''Promo''\<rparr>] \<and> messageLogs w' = [] \<and>
      started_campaignId p = 0 \<and> started_total p = 2"
    unfolding b by (simp add: emptyWorld_def demoBulk_def)
  then show ?thesis
    using a b(1) b(5) by blast
qed

section \<open>Text variation\<close>

text \<open>
  C2, as the code has it. The output can be shorter than the template, since a spintax
  group is replaced by one of its pieces and a dictionary word by a shorter variation.
  With every draw a double in \<open>[0, 1)\<close>: the output always ends with one to ten zero-width spaces,
  so it is never empty; the greeting stage never shortens its input; and for a template
  with no opening brace and no dictionary word the output is the template followed by
  those one to ten characters, so it is longer than the input.
\<close>

theorem processor_length:
  assumes "unitInterval rs"
  shows "(\<exists>txt k. 1 \<le> k \<and> k \<le> 10 \<and> fst (processor hour rawText rs) = txt @ replicate k ZWSP) \<and>
         length rawText \<le> length (fst (getTimeBasedGreeting hour rawText rs)) \<and>
         (0x7B \<notin> set rawText \<and> \<not> hasSlangWord rawText \<longrightarrow>
            (\<exists>k. 1 \<le> k \<and> k \<le> 10 \<and>
                 fst (processor hour rawText rs) = rawText @ replicate k ZWSP) \<and>
            length rawText < length (fst (processor hour rawText rs)))"
proof (intro conjI impI)
  let ?g = "getTimeBasedGreeting hour rawText rs"
  let ?s = "processSpintax (fst ?g) (snd ?g)"
  let ?k = "randomIndex (shd (snd ?s)) 10 + 1"
  have r: "isDouble (shd (snd ?s)) \<and> 0 \<le> shd (snd ?s) \<and> shd (snd ?s) < 1"
    using unitInterval_after_spintax [OF assms] by (rule unitInterval_shd)
  then have "randomIndex (shd (snd ?s)) 10 < 10"
    by (intro randomIndex_less) simp_all
  then have k: "1 \<le> ?k \<and> ?k \<le> 10"
    by simp
  have out: "fst (processor hour rawText rs) =
      fst (applyIndonesianSlang (fst ?s) (stl (snd ?s))) @ replicate ?k ZWSP"
    by (simp add: processor_suffix_last Let_def case_prod_beta del: replicate.simps)
  show "\<exists>txt k. 1 \<le> k \<and> k \<le> 10 \<and> fst (processor hour rawText rs) = txt @ replicate k ZWSP"
    using k out by blast
  show "length rawText \<le> length (fst ?g)"
    using unitInterval_shd [OF assms] by (intro getTimeBasedGreeting_length) simp_all
  assume plain: "0x7B \<notin> set rawText \<and> \<not> hasSlangWord rawText"
  have g: "fst ?g = rawText"
    using plain by (simp add: getTimeBasedGreeting_def Let_def replaceSalam_no_brace)
  have s: "fst ?s = rawText"
    using plain by (simp add: g processSpintax_no_brace)
  have "applyIndonesianSlang rawText (stl (snd ?s)) = (rawText, stl (snd ?s))"
    using plain unfolding applyIndonesianSlang_def hasSlangWord_def
    by (intro slangLoop_absent) simp
  then have eq: "fst (processor hour rawText rs) = rawText @ replicate ?k ZWSP"
    using out s by simp
  show "\<exists>k. 1 \<le> k \<and> k \<le> 10 \<and> fst (processor hour rawText rs) = rawText @ replicate k ZWSP"
    using k eq by blast
  show "length rawText < length (fst (processor hour rawText rs))"
    unfolding eq by simp
qed

theorem processor_length_witness:
  "unitInterval (sconst 0) \<and> 0x7B \<notin> set (js ''halo'') \<and> \<not> hasSlangWord (js ''halo'') \<and>
   length (js ''halo'') < length (fst (processor 9 (js ''halo'') (sconst 0))) \<and>
   length (js ''halo'') \<le> length (fst (getTimeBasedGreeting 9 (js ''halo'') (sconst 0)))"
proof -
  have u: "unitInterval (sconst 0)"
    by (rule sample_streams)
  from processor_length [OF u, of 9 "js ''halo''"] plain_halo u
  show ?thesis by blast
qed

text \<open>
  A template of fourteen characters whose output has two: the first piece of the group
  and one zero-width space.
\<close>

theorem processor_shortens_counterexample:
  "unitInterval (sconst 0) \<and>
   fst (processor 9 (js ''{a|bbbbbbbbbb}'') (sconst 0)) = js ''a'' @ [ZWSP] \<and>
   length (fst (processor 9 (js ''{a|bbbbbbbbbb}'') (sconst 0))) <
     length (js ''{a|bbbbbbbbbb}'')"
proof -
  have "fst (processor 9 (js ''{a|bbbbbbbbbb}'') (sconst 0)) = js ''a'' @ [ZWSP]"
    by (simp add: processor_def pipe_defs)
  then show ?thesis
    by (simp add: sample_streams)
qed

text \<open>
  C4, as the code has it. The stages run in the order greeting, spintax, invisible
  suffix, slang: the suffix is appended before the slang stage, and each stage draws from
  the random source where the stage before it stopped. The slang stage leaves the
  appended zero-width spaces alone, so the output is the slang form of the text after
  greeting and spintax, followed by the suffix; the length of the suffix is drawn before
  the draws of the slang stage.
\<close>

theorem processor_stage_order:
  "processor hour rawText rs =
     (let (txt1, rs1) = getTimeBasedGreeting hour rawText rs;
          (txt2, rs2) = processSpintax txt1 rs1;
          (txt3, rs3) = addInvisibleUnique txt2 rs2
      in applyIndonesianSlang txt3 rs3) \<and>
   processor hour rawText rs =
     (let (txt1, rs1) = getTimeBasedGreeting hour rawText rs;
          (txt2, rs2) = processSpintax txt1 rs1;
          (txt4, rs4) = applyIndonesianSlang txt2 (stl rs2)
      in (txt4 @ replicate (randomIndex (shd rs2) 10 + 1) ZWSP, rs4))"
proof
  show "processor hour rawText rs =
     (let (txt1, rs1) = getTimeBasedGreeting hour rawText rs;
          (txt2, rs2) = processSpintax txt1 rs1;
          (txt3, rs3) = addInvisibleUnique txt2 rs2
      in applyIndonesianSlang txt3 rs3)"
    by (simp add: processor_def Let_def case_prod_beta)
  show "processor hour rawText rs =
     (let (txt1, rs1) = getTimeBasedGreeting hour rawText rs;
          (txt2, rs2) = processSpintax txt1 rs1;
          (txt4, rs4) = applyIndonesianSlang txt2 (stl rs2)
      in (txt4 @ replicate (randomIndex (shd rs2) 10 + 1) ZWSP, rs4))"
    by (rule processor_suffix_last)
qed

theorem processor_stage_order_witness:
  "fst (processor 9 (js ''kak'') (0 ## 0 ## 7 / 8 ## 1 / 8 ## sconst 0)) =
     fst (applyIndonesianSlang (js ''kak'') (7 / 8 ## 1 / 8 ## sconst 0)) @ [ZWSP]"
proof -
  have nb: "0x7B \<notin> set (js ''kak'')"
    by (simp add: js_def)
  have g: "getTimeBasedGreeting 9 (js ''kak'') (0 ## 0 ## 7 / 8 ## 1 / 8 ## sconst 0) =
      (js ''kak'', 0 ## 7 / 8 ## 1 / 8 ## sconst 0)"
    by (simp add: getTimeBasedGreeting_def Let_def replaceSalam_no_brace [OF nb])
  have s: "processSpintax (js ''kak'') (0 ## 7 / 8 ## 1 / 8 ## sconst 0) =
      (js ''kak'', 0 ## 7 / 8 ## 1 / 8 ## sconst 0)"
    by (rule processSpintax_no_brace [OF nb])
  from conjunct2 [OF processor_stage_order
      [of 9 "js ''kak''" "0 ## 0 ## 7 / 8 ## 1 / 8 ## sconst 0"]]
  show ?thesis
    by (simp add: g s case_prod_beta sample_indices)
qed

text \<open>
  The same draws give different outputs in the two orders: the code draws the length of
  the suffix first and keeps the word; with the suffix last, the first draw replaces the
  word and a later draw gives the suffix two characters.
\<close>

theorem processor_order_counterexample:
  "unitInterval (0 ## 0 ## 7 / 8 ## 1 / 8 ## sconst 0) \<and>
   fst (processor 9 (js ''kak'') (0 ## 0 ## 7 / 8 ## 1 / 8 ## sconst 0)) =
     js ''kak'' @ [ZWSP] \<and>
   fst (specProcessor 9 (js ''kak'') (0 ## 0 ## 7 / 8 ## 1 / 8 ## sconst 0)) =
     js ''kakak'' @ [ZWSP, ZWSP] \<and>
   processor 9 (js ''kak'') (0 ## 0 ## 7 / 8 ## 1 / 8 ## sconst 0) \<noteq>
     specProcessor 9 (js ''kak'') (0 ## 0 ## 7 / 8 ## 1 / 8 ## sconst 0)"
proof -
  have a: "fst (processor 9 (js ''kak'') (0 ## 0 ## 7 / 8 ## 1 / 8 ## sconst 0)) =
      js ''kak'' @ [ZWSP]"
    by (simp add: processor_def pipe_defs)
  have b: "fst (specProcessor 9 (js ''kak'') (0 ## 0 ## 7 / 8 ## 1 / 8 ## sconst 0)) =
      js ''kakak'' @ [ZWSP, ZWSP]"
    by (simp add: specProcessor_def pipe_defs)
  have "fst (processor 9 (js ''kak'') (0 ## 0 ## 7 / 8 ## 1 / 8 ## sconst 0)) \<noteq>
     fst (specProcessor 9 (js ''kak'') (0 ## 0 ## 7 / 8 ## 1 / 8 ## sconst 0))"
    unfolding a b by (simp add: js_def)
  then show ?thesis
    using a b sample_streams by auto
qed

section \<open>Auto-reply\<close>

text \<open>
  C8. For an inbound text whose sender's newest campaign row has an auto-reply
  configuration: when a trigger word occurs in the text, the reply of the first rule whose
  match text equals the text (both in lower case) is sent; if there is no such rule, the
  reply of the first rule, in configured order, whose match text occurs in the text; if
  there is neither, nothing happens. With the trigger words \<open>halo\<close> and \<open>hai\<close> and the
  text \<open>hello\<close> nothing happens at all: the state and the random source are unchanged.
  Sending a reply that is not empty to a recipient that passes the checks is a delay of
  the configured range, the typing, a new row and the transmit call with the text of the
  reply; an empty reply is not sent.
\<close>

theorem autoReply_selection:
  assumes "textBody msg \<noteq> []"
    and "lastCampaignOf (remoteJid msg) (messageLogs w) = Some cid"
    and "autoReplies w cid = Some config"
  shows "(isMatch toLowerCase (traceWords config) (textBody msg) \<longrightarrow>
          ((\<exists>r \<in> set (replyMap config). exactRule toLowerCase (textBody msg) r) \<longrightarrow>
            (\<exists>i < length (replyMap config).
               exactRule toLowerCase (textBody msg) (replyMap config ! i) \<and>
               (\<forall>j < i. \<not> exactRule toLowerCase (textBody msg) (replyMap config ! j)) \<and>
               handleAutoReply toLowerCase extname clients sessionId msg w rs =
                 sendReply extname clients sessionId (remoteJid msg) (delayReply config)
                   (reply (replyMap config ! i)) w rs)) \<and>
          (\<not> (\<exists>r \<in> set (replyMap config). exactRule toLowerCase (textBody msg) r) \<and>
           (\<exists>r \<in> set (replyMap config). partialRule toLowerCase (textBody msg) r) \<longrightarrow>
            (\<exists>i < length (replyMap config).
               partialRule toLowerCase (textBody msg) (replyMap config ! i) \<and>
               (\<forall>j < i. \<not> partialRule toLowerCase (textBody msg) (replyMap config ! j)) \<and>
               handleAutoReply toLowerCase extname clients sessionId msg w rs =
                 sendReply extname clients sessionId (remoteJid msg) (delayReply config)
                   (reply (replyMap config ! i)) w rs)) \<and>
          (\<not> (\<exists>r \<in> set (replyMap config). exactRule toLowerCase (textBody msg) r) \<and>
           \<not> (\<exists>r \<in> set (replyMap config). partialRule toLowerCase (textBody msg) r) \<longrightarrow>
            handleAutoReply toLowerCase extname clients sessionId msg w rs = (w, rs))) \<and>
         (foldsASCII toLowerCase \<and> traceWords config = [js ''halo'', js ''hai''] \<and>
          textBody msg = js ''hello'' \<longrightarrow>
            handleAutoReply toLowerCase extname clients sessionId msg w rs = (w, rs)) \<and>
         (body \<noteq> [] \<and> clients sessionId = Some sk \<and> checkRegistration sk jid = None \<and>
          sendPresenceUpdate sk (formatRecipient jid) = None \<longrightarrow>
            (\<exists>st. trace (fst (sendReply extname clients sessionId jid delay body w rs)) =
               trace w @ [Sleep (numMul (fst (getRandomDelay delay rs)) (Finite 1000))] @
               (if isCanonical jid then [RegistrationQuery (formatRecipient jid)] else []) @
               [Composing (formatRecipient jid), Sleep (Finite (of_int (typingDuration body))),
                LogCreated (length (messageLogs w)),
                Transmit (formatRecipient jid) (Text body),
                LogUpdated (length (messageLogs w)) st]) \<and>
            length (messageLogs (fst (sendReply extname clients sessionId jid delay body w rs))) =
              Suc (length (messageLogs w)) \<and>
            snd (sendReply extname clients sessionId jid delay body w rs) =
              snd (getRandomDelay delay rs)) \<and>
         sendReply extname clients sessionId jid delay [] w rs = (w, rs)"
proof -
  let ?rules = "replyMap config"
  let ?t = "textBody msg"
  have run: "handleAutoReply toLowerCase extname clients sessionId msg w rs =
      sendReply extname clients sessionId (remoteJid msg) (delayReply config)
        (replyMessage toLowerCase ?rules ?t) w rs"
    if "isMatch toLowerCase (traceWords config) ?t"
    using assms that by (simp add: handleAutoReply_def)
  have exact: "\<exists>i < length ?rules. exactRule toLowerCase ?t (?rules ! i) \<and>
               (\<forall>j < i. \<not> exactRule toLowerCase ?t (?rules ! j)) \<and>
               handleAutoReply toLowerCase extname clients sessionId msg w rs =
                 sendReply extname clients sessionId (remoteJid msg) (delayReply config)
                   (reply (?rules ! i)) w rs"
    if m: "isMatch toLowerCase (traceWords config) ?t"
      and e: "\<exists>r \<in> set ?rules. exactRule toLowerCase ?t r"
  proof -
    from e obtain x where x: "find (exactRule toLowerCase ?t) ?rules = Some x"
      by (cases "find (exactRule toLowerCase ?t) ?rules") (auto simp: find_None_iff)
    then obtain i where i: "i < length ?rules" "exactRule toLowerCase ?t (?rules ! i)"
      "x = ?rules ! i" "\<forall>j<i. \<not> exactRule toLowerCase ?t (?rules ! j)"
      by (auto simp: find_Some_iff)
    have "replyMessage toLowerCase ?rules ?t = reply (?rules ! i)"
      using x i(3) by (simp add: replyMessage_def)
    then show ?thesis
      using i run [OF m] by auto
  qed
  have partial: "\<exists>i < length ?rules. partialRule toLowerCase ?t (?rules ! i) \<and>
               (\<forall>j < i. \<not> partialRule toLowerCase ?t (?rules ! j)) \<and>
               handleAutoReply toLowerCase extname clients sessionId msg w rs =
                 sendReply extname clients sessionId (remoteJid msg) (delayReply config)
                   (reply (?rules ! i)) w rs"
    if m: "isMatch toLowerCase (traceWords config) ?t"
      and a: "\<not> (\<exists>r \<in> set ?rules. exactRule toLowerCase ?t r) \<and>
              (\<exists>r \<in> set ?rules. partialRule toLowerCase ?t r)"
  proof -
    from a have none: "find (exactRule toLowerCase ?t) ?rules = None"
      by (auto simp: find_None_iff)
    from a obtain x where x: "find (partialRule toLowerCase ?t) ?rules = Some x"
      by (cases "find (partialRule toLowerCase ?t) ?rules") (auto simp: find_None_iff)
    then obtain i where i: "i < length ?rules" "partialRule toLowerCase ?t (?rules ! i)"
      "x = ?rules ! i" "\<forall>j<i. \<not> partialRule toLowerCase ?t (?rules ! j)"
      by (auto simp: find_Some_iff)
    have "replyMessage toLowerCase ?rules ?t = reply (?rules ! i)"
      using none x i(3) by (simp add: replyMessage_def)
    then show ?thesis
      using i run [OF m] by auto
  qed
  have neither: "handleAutoReply toLowerCase extname clients sessionId msg w rs = (w, rs)"
    if m: "isMatch toLowerCase (traceWords config) ?t"
      and a: "\<not> (\<exists>r \<in> set ?rules. exactRule toLowerCase ?t r) \<and>
              \<not> (\<exists>r \<in> set ?rules. partialRule toLowerCase ?t r)"
  proof -
    from a have "find (exactRule toLowerCase ?t) ?rules = None"
      "find (partialRule toLowerCase ?t) ?rules = None"
      by (auto simp: find_None_iff)
    then have "replyMessage toLowerCase ?rules ?t = []"
      by (simp add: replyMessage_def)
    then show ?thesis
      using run [OF m] by (simp add: sendReply_def)
  qed
  have hello: "handleAutoReply toLowerCase extname clients sessionId msg w rs = (w, rs)"
    if "foldsASCII toLowerCase \<and> traceWords config = [js ''halo'', js ''hai''] \<and>
        ?t = js ''hello''"
  proof -
    from that have "\<not> isMatch toLowerCase (traceWords config) ?t"
      using hello_not_triggered [of toLowerCase] by simp
    then show ?thesis
      using assms by (simp add: handleAutoReply_def)
  qed
  have sent: "(\<exists>st. trace (fst (sendReply extname clients sessionId jid delay body w rs)) =
               trace w @ [Sleep (numMul (fst (getRandomDelay delay rs)) (Finite 1000))] @
               (if isCanonical jid then [RegistrationQuery (formatRecipient jid)] else []) @
               [Composing (formatRecipient jid), Sleep (Finite (of_int (typingDuration body))),
                LogCreated (length (messageLogs w)),
                Transmit (formatRecipient jid) (Text body),
                LogUpdated (length (messageLogs w)) st]) \<and>
            length (messageLogs (fst (sendReply extname clients sessionId jid delay body w rs))) =
              Suc (length (messageLogs w)) \<and>
            snd (sendReply extname clients sessionId jid delay body w rs) =
              snd (getRandomDelay delay rs)"
    if a: "body \<noteq> [] \<and> clients sessionId = Some sk \<and> checkRegistration sk jid = None \<and>
           sendPresenceUpdate sk (formatRecipient jid) = None"
  proof (intro conjI)
    show "\<exists>st. trace (fst (sendReply extname clients sessionId jid delay body w rs)) =
               trace w @ [Sleep (numMul (fst (getRandomDelay delay rs)) (Finite 1000))] @
               (if isCanonical jid then [RegistrationQuery (formatRecipient jid)] else []) @
               [Composing (formatRecipient jid), Sleep (Finite (of_int (typingDuration body))),
                LogCreated (length (messageLogs w)),
                Transmit (formatRecipient jid) (Text body),
                LogUpdated (length (messageLogs w)) st]"
      using a by (intro sendReply_trace [where sk = sk]) simp_all
    have "length (messageLogs (snd (sendMessage extname clients
          \<lparr>dto_sessionId = sessionId, dto_to = jid, dto_message = body,
           dto_file = None, dto_mediaType = None, dto_fileName = None\<rparr> None None w1))) =
        Suc (length (messageLogs w1))" for w1
      using a by (intro sendMessage_accepted_row [where sk = sk]) simp_all
    then show "length (messageLogs (fst (sendReply extname clients sessionId jid delay body
          w rs))) = Suc (length (messageLogs w))"
      using a by (simp add: sendReply_def Let_def case_prod_beta)
    show "snd (sendReply extname clients sessionId jid delay body w rs) =
        snd (getRandomDelay delay rs)"
      using a by (simp add: sendReply_def Let_def case_prod_beta)
  qed
  have empty: "sendReply extname clients sessionId jid delay [] w rs = (w, rs)"
    by (simp add: sendReply_def)
  show ?thesis
    using exact partial neither hello sent empty by blast
qed

theorem autoReply_selection_witness:
  "handleAutoReply lowerASCII (\<lambda>_. []) (demoClients (demoSock True (Inr None))) (js ''s1'')
       (inbound (js ''Halo'')) campaignWorld (sconst 0) =
     sendReply (\<lambda>_. []) (demoClients (demoSock True (Inr None))) (js ''s1'')
       (js ''0812345@s.whatsapp.net'') (js ''3-7'') (js ''Halo juga'') campaignWorld (sconst 0) \<and>
   handleAutoReply lowerASCII (\<lambda>_. []) (demoClients (demoSock True (Inr None))) (js ''s1'')
       (inbound (js ''oh halo'')) campaignWorld (sconst 0) =
     sendReply (\<lambda>_. []) (demoClients (demoSock True (Inr None))) (js ''s1'')
       (js ''0812345@s.whatsapp.net'') (js ''3-7'') (js ''Halo juga'') campaignWorld (sconst 0) \<and>
   handleAutoReply lowerASCII (\<lambda>_. []) (demoClients (demoSock True (Inr None))) (js ''s1'')
       (inbound (js ''hai'')) campaignWorld (sconst 0) = (campaignWorld, sconst 0) \<and>
   handleAutoReply lowerASCII (\<lambda>_. []) (demoClients (demoSock True (Inr None))) (js ''s1'')
       (inbound (js ''hello'')) campaignWorld (sconst 0) = (campaignWorld, sconst 0) \<and>
   (\<exists>st. trace (fst (handleAutoReply lowerASCII (\<lambda>_. [])
        (demoClients (demoSock True (Inr None))) (js ''s1'') (inbound (js ''Halo''))
        campaignWorld (sconst 0))) =
      [Sleep (Finite 3000), RegistrationQuery (js ''0812345@s.whatsapp.net''),
       Composing (js ''0812345@s.whatsapp.net''), Sleep (Finite 1000), LogCreated 1,
       Transmit (js ''0812345@s.whatsapp.net'') (Text (js ''Halo juga'')),
       LogUpdated 1 st])"
proof -
  let ?cl = "demoClients (demoSock True (Inr None))"
  have found: "textBody (inbound t) \<noteq> []"
      "lastCampaignOf (remoteJid (inbound t)) (messageLogs campaignWorld) = Some 0"
      "autoReplies campaignWorld 0 = Some demoConfig" if "t \<noteq> []" for t
    using that by (simp_all add: reply_defs)
  have three: "i = 0 \<or> i = 1 \<or> i = 2" if "i < length (replyMap demoConfig)" for i
    using that by (auto simp: demoConfig_def)
  note sel = autoReply_selection [where w = campaignWorld and cid = 0 and config = demoConfig
      and extname = "\<lambda>_. []" and clients = ?cl and sessionId = "js ''s1''" and rs = "sconst 0"
      and toLowerCase = lowerASCII and sk = "demoSock True (Inr None)"
      and jid = "js ''0812345@s.whatsapp.net''" and delay = "js ''3-7''"
      and body = "js ''Halo juga''"]
  have a: "handleAutoReply lowerASCII (\<lambda>_. []) ?cl (js ''s1'') (inbound (js ''Halo''))
        campaignWorld (sconst 0) =
      sendReply (\<lambda>_. []) ?cl (js ''s1'') (js ''0812345@s.whatsapp.net'') (js ''3-7'')
        (js ''Halo juga'') campaignWorld (sconst 0)"
  proof -
    have "js ''Halo'' \<noteq> []" by (simp add: js_def)
    note f = found [OF this]
    have m: "isMatch lowerASCII (traceWords demoConfig) (textBody (inbound (js ''Halo'')))"
      by (simp add: reply_defs)
    have e: "\<exists>r \<in> set (replyMap demoConfig).
        exactRule lowerASCII (textBody (inbound (js ''Halo''))) r"
      by (simp add: reply_defs)
    from sel [where msg = "inbound (js ''Halo'')", OF f] m e
    obtain i where i: "i < length (replyMap demoConfig)"
      "exactRule lowerASCII (textBody (inbound (js ''Halo''))) (replyMap demoConfig ! i)"
      "handleAutoReply lowerASCII (\<lambda>_. []) ?cl (js ''s1'') (inbound (js ''Halo''))
          campaignWorld (sconst 0) =
        sendReply (\<lambda>_. []) ?cl (js ''s1'') (remoteJid (inbound (js ''Halo'')))
          (delayReply demoConfig) (reply (replyMap demoConfig ! i)) campaignWorld (sconst 0)"
      by blast
    have "i = 1"
      using three [OF i(1)] i(2) by (auto simp: reply_defs)
    then show ?thesis
      using i(3) by (simp add: demoConfig_def inbound_def)
  qed
  have b: "handleAutoReply lowerASCII (\<lambda>_. []) ?cl (js ''s1'') (inbound (js ''oh halo''))
        campaignWorld (sconst 0) =
      sendReply (\<lambda>_. []) ?cl (js ''s1'') (js ''0812345@s.whatsapp.net'') (js ''3-7'')
        (js ''Halo juga'') campaignWorld (sconst 0)"
  proof -
    have "js ''oh halo'' \<noteq> []" by (simp add: js_def)
    note f = found [OF this]
    have m: "isMatch lowerASCII (traceWords demoConfig) (textBody (inbound (js ''oh halo'')))"
      by (simp add: reply_defs)
    have e: "\<not> (\<exists>r \<in> set (replyMap demoConfig).
          exactRule lowerASCII (textBody (inbound (js ''oh halo''))) r) \<and>
        (\<exists>r \<in> set (replyMap demoConfig).
          partialRule lowerASCII (textBody (inbound (js ''oh halo''))) r)"
      by (simp add: reply_defs)
    from sel [where msg = "inbound (js ''oh halo'')", OF f] m e
    obtain i where i: "i < length (replyMap demoConfig)"
      "partialRule lowerASCII (textBody (inbound (js ''oh halo''))) (replyMap demoConfig ! i)"
      "\<forall>j<i. \<not> partialRule lowerASCII (textBody (inbound (js ''oh halo'')))
          (replyMap demoConfig ! j)"
      "handleAutoReply lowerASCII (\<lambda>_. []) ?cl (js ''s1'') (inbound (js ''oh halo''))
          campaignWorld (sconst 0) =
        sendReply (\<lambda>_. []) ?cl (js ''s1'') (remoteJid (inbound (js ''oh halo'')))
          (delayReply demoConfig) (reply (replyMap demoConfig ! i)) campaignWorld (sconst 0)"
      by blast
    have p1: "partialRule lowerASCII (textBody (inbound (js ''oh halo'')))
        (replyMap demoConfig ! 1)"
      by (simp add: reply_defs)
    have p0: "\<not> partialRule lowerASCII (textBody (inbound (js ''oh halo'')))
        (replyMap demoConfig ! 0)"
      by (simp add: reply_defs)
    have "i \<noteq> 0"
    proof
      assume "i = 0"
      then show False using i(2) p0 by simp
    qed
    moreover have "i \<noteq> 2"
    proof
      assume "i = 2"
      then have "\<not> partialRule lowerASCII (textBody (inbound (js ''oh halo'')))
          (replyMap demoConfig ! 1)"
        using i(3) by simp
      then show False using p1 by simp
    qed
    ultimately have "i = 1"
      using three [OF i(1)] by auto
    then show ?thesis
      using i(4) by (simp add: demoConfig_def inbound_def)
  qed
  have c: "handleAutoReply lowerASCII (\<lambda>_. []) ?cl (js ''s1'') (inbound (js ''hai''))
        campaignWorld (sconst 0) = (campaignWorld, sconst 0)"
  proof -
    have "js ''hai'' \<noteq> []" by (simp add: js_def)
    note f = found [OF this]
    have m: "isMatch lowerASCII (traceWords demoConfig) (textBody (inbound (js ''hai'')))"
      by (simp add: reply_defs)
    have e: "\<not> (\<exists>r \<in> set (replyMap demoConfig).
          exactRule lowerASCII (textBody (inbound (js ''hai''))) r) \<and>
        \<not> (\<exists>r \<in> set (replyMap demoConfig).
          partialRule lowerASCII (textBody (inbound (js ''hai''))) r)"
      by (simp add: reply_defs)
    from sel [where msg = "inbound (js ''hai'')", OF f] m e
    show ?thesis by blast
  qed
  have d: "handleAutoReply lowerASCII (\<lambda>_. []) ?cl (js ''s1'') (inbound (js ''hello''))
        campaignWorld (sconst 0) = (campaignWorld, sconst 0)"
  proof -
    have "js ''hello'' \<noteq> []" by (simp add: js_def)
    note f = found [OF this]
    have e: "foldsASCII lowerASCII \<and> traceWords demoConfig = [js ''halo'', js ''hai''] \<and>
        textBody (inbound (js ''hello'')) = js ''hello''"
      by (simp add: foldsASCII_lowerASCII demoConfig_def inbound_def textBody_def truthy_def
          js_def)
    from sel [where msg = "inbound (js ''hello'')", OF f] e
    show ?thesis by blast
  qed
  have t: "\<exists>st. trace (fst (sendReply (\<lambda>_. []) ?cl (js ''s1'') (js ''0812345@s.whatsapp.net'')
        (js ''3-7'') (js ''Halo juga'') campaignWorld (sconst 0))) =
      [Sleep (Finite 3000), RegistrationQuery (js ''0812345@s.whatsapp.net''),
       Composing (js ''0812345@s.whatsapp.net''), Sleep (Finite 1000), LogCreated 1,
       Transmit (js ''0812345@s.whatsapp.net'') (Text (js ''Halo juga'')),
       LogUpdated 1 st]"
  proof -
    have "js ''Halo'' \<noteq> []" by (simp add: js_def)
    note f = found [OF this]
    have ok: "js ''Halo juga'' \<noteq> [] \<and> ?cl (js ''s1'') = Some (demoSock True (Inr None)) \<and>
        checkRegistration (demoSock True (Inr None)) (js ''0812345@s.whatsapp.net'') = None \<and>
        sendPresenceUpdate (demoSock True (Inr None))
          (formatRecipient (js ''0812345@s.whatsapp.net'')) = None"
      by (simp add: eval_defs)
    have fr: "formatRecipient (js ''0812345@s.whatsapp.net'') = js ''0812345@s.whatsapp.net''"
      "isCanonical (js ''0812345@s.whatsapp.net'')"
      by (simp_all add: eval_defs)
    have delay: "fst (getRandomDelay (js ''3-7'') (sconst 0)) = Finite 3"
      using delay_value [of 0 3 7] sample_draws
      by (simp add: getRandomDelay_tokens tokens_3_7 isNaN_def sample_indices)
    have ms: "numMul (Finite 3) (Finite 1000) = Finite 3000"
      by (simp add: toDouble_numeral)
    have ty: "typingDuration (js ''Halo juga'') = 1000"
      by (simp add: typingDuration_def)
    from sel [where msg = "inbound (js ''Halo'')", OF f] ok
    obtain st where "trace (fst (sendReply (\<lambda>_. []) ?cl (js ''s1'')
          (js ''0812345@s.whatsapp.net'') (js ''3-7'') (js ''Halo juga'') campaignWorld
          (sconst 0))) =
        trace campaignWorld @
        [Sleep (numMul (fst (getRandomDelay (js ''3-7'') (sconst 0))) (Finite 1000))] @
        (if isCanonical (js ''0812345@s.whatsapp.net'')
         then [RegistrationQuery (formatRecipient (js ''0812345@s.whatsapp.net''))] else []) @
        [Composing (formatRecipient (js ''0812345@s.whatsapp.net'')),
         Sleep (Finite (of_int (typingDuration (js ''Halo juga'')))),
         LogCreated (length (messageLogs campaignWorld)),
         Transmit (formatRecipient (js ''0812345@s.whatsapp.net'')) (Text (js ''Halo juga'')),
         LogUpdated (length (messageLogs campaignWorld)) st]"
      by blast
    then have "trace (fst (sendReply (\<lambda>_. []) ?cl (js ''s1'')
          (js ''0812345@s.whatsapp.net'') (js ''3-7'') (js ''Halo juga'') campaignWorld
          (sconst 0))) =
      [Sleep (Finite 3000), RegistrationQuery (js ''0812345@s.whatsapp.net''),
       Composing (js ''0812345@s.whatsapp.net''), Sleep (Finite 1000), LogCreated 1,
       Transmit (js ''0812345@s.whatsapp.net'') (Text (js ''Halo juga'')),
       LogUpdated 1 st]"
      by (simp add: fr delay ms ty campaignWorld_def emptyWorld_def toDouble_numeral)
    then show ?thesis ..
  qed
  show ?thesis
    using a b c d t by simp
qed

end
